theory Spec2Isabelle
  imports Complex_Main
begin

section \<open>JavaScript strings\<close>

text \<open>
  A JavaScript string is a sequence of UTF-16 code units and \<open>.length\<close> counts code
  units, so a string is modelled as the list of its code units (natural numbers; those
  of a JavaScript string are below 65536, and nothing here depends on the bound).
  \<open>js\<close> embeds an ASCII literal. The non-ASCII characters of the source's regular expressions are written by
  their code unit: U+2013 = 8211, U+2014 = 8212, U+2122 = 8482, U+00AE = 174,
  U+00A9 = 169.
\<close>

type_synonym jsstring = "nat list"

definition js :: "string \<Rightarrow> jsstring" where
  "js s = map of_char s"

text \<open>
  The class \<open>\s\<close> of a regular expression, which is also the set that \<open>trim()\<close>
  strips: TAB, LF, VT, FF, CR, SP, NBSP, U+1680, U+2000..U+200A, U+2028, U+2029,
  U+202F, U+205F, U+3000, U+FEFF.
\<close>

definition isWhiteSpace :: "nat \<Rightarrow> bool" where
  "isWhiteSpace c \<longleftrightarrow>
     (9 \<le> c \<and> c \<le> 13) \<or> c = 32 \<or> c = 160 \<or> c = 5760 \<or> (8192 \<le> c \<and> c \<le> 8202) \<or>
     c = 8232 \<or> c = 8233 \<or> c = 8239 \<or> c = 8287 \<or> c = 12288 \<or> c = 65279"

definition isUpperAZ :: "nat \<Rightarrow> bool" where
  "isUpperAZ c \<longleftrightarrow> 65 \<le> c \<and> c \<le> 90"

definition isLowerAZ :: "nat \<Rightarrow> bool" where
  "isLowerAZ c \<longleftrightarrow> 97 \<le> c \<and> c \<le> 122"

definition isDigit :: "nat \<Rightarrow> bool" where
  "isDigit c \<longleftrightarrow> 48 \<le> c \<and> c \<le> 57"

text \<open>The class \<open>\w\<close>, which decides the word boundary \<open>\b\<close>: \<open>[A-Za-z0-9_]\<close>.\<close>

definition isWordChar :: "nat \<Rightarrow> bool" where
  "isWordChar c \<longleftrightarrow> isUpperAZ c \<or> isLowerAZ c \<or> isDigit c \<or> c = 95"

definition trim :: "jsstring \<Rightarrow> jsstring" where
  "trim s = rev (dropWhile isWhiteSpace (rev (dropWhile isWhiteSpace s)))"

text \<open>
  \<open>s.split(/\s+/)\<close>: the pieces between maximal runs of white space. A leading or a
  trailing run gives an empty first or last piece, and the empty string splits into one
  empty piece.
\<close>

function splitFrom :: "jsstring \<Rightarrow> jsstring \<Rightarrow> jsstring list" where
  "splitFrom cur [] = [cur]"
| "splitFrom cur (c # cs) =
     (if isWhiteSpace c then cur # splitFrom [] (dropWhile isWhiteSpace cs)
      else splitFrom (cur @ [c]) cs)"
  by pat_completeness auto
termination
  by (relation "measure (\<lambda>(cur, s). length s)")
     (auto simp: less_Suc_eq_le length_dropWhile_le)

definition splitWs :: "jsstring \<Rightarrow> jsstring list" where
  "splitWs s = splitFrom [] s"

text \<open>\<open>s.replace(/\s+/g, ' ')\<close>: every maximal run of white space becomes one U+0020.\<close>

function collapseWs :: "jsstring \<Rightarrow> jsstring" where
  "collapseWs [] = []"
| "collapseWs (c # cs) =
     (if isWhiteSpace c then 32 # collapseWs (dropWhile isWhiteSpace cs)
      else c # collapseWs cs)"
  by pat_completeness auto
termination
  by (relation "measure length") (auto simp: less_Suc_eq_le length_dropWhile_le)

text \<open>
  The two punctuation classes of the source: \<open>[,()[\]:;!?'"TM(R)(C)]\<close> of the short
  path and \<open>[,()[\]:;!?'"&\-TM(R)(C)]\<close> with the en and em dash, used everywhere else.
\<close>

definition punctShort :: "nat \<Rightarrow> bool" where
  "punctShort c \<longleftrightarrow> c \<in> set [44, 40, 41, 91, 93, 58, 59, 33, 63, 39, 34, 8482, 174, 169]"

definition punctFull :: "nat \<Rightarrow> bool" where
  "punctFull c \<longleftrightarrow>
     c \<in> set [44, 40, 41, 91, 93, 58, 59, 33, 63, 39, 34, 38, 45, 8211, 8212, 8482, 174, 169]"

text \<open>\<open>s.replace(/[...]/g, ' ')\<close> and \<open>s.replace(/[...]/g, '')\<close> for a character class.\<close>

definition replaceClass :: "(nat \<Rightarrow> bool) \<Rightarrow> jsstring \<Rightarrow> jsstring" where
  "replaceClass p s = map (\<lambda>c. if p c then 32 else c) s"

definition removeClass :: "(nat \<Rightarrow> bool) \<Rightarrow> jsstring \<Rightarrow> jsstring" where
  "removeClass p s = filter (\<lambda>c. \<not> p c) s"

text \<open>
  \<open>toLowerCase\<close>. The program reads English titles and Russian storefront names, and the
  model maps the capital letters of Basic Latin, of Latin-1 and of the basic Cyrillic
  block (U+0400..U+042F), together with the five other code points whose lower case
  lies in these alphabets: U+0178 (to U+00FF), U+1E9E (to U+00DF), the Kelvin sign U+212A
  (to k), the Angstrom sign U+212B (to U+00E5), and U+0130, the only code point whose
  lower case is longer than itself: it becomes the two code units U+0069 U+0307. So the
  length of the lower-cased string, and whether it is a given word in these alphabets,
  are as in ECMAScript. Every other code unit is left as it is (ECMAScript applies the
  full Unicode case tables there).
\<close>

definition lowerUnit :: "nat \<Rightarrow> nat" where
  "lowerUnit c =
     (if 65 \<le> c \<and> c \<le> 90 then c + 32
      else if 192 \<le> c \<and> c \<le> 222 \<and> c \<noteq> 215 then c + 32
      else if 1040 \<le> c \<and> c \<le> 1071 then c + 32
      else if 1024 \<le> c \<and> c \<le> 1039 then c + 80
      else if c = 376 then 255
      else if c = 7838 then 223
      else if c = 8490 then 107
      else if c = 8491 then 229
      else c)"

definition lowerUnits :: "nat \<Rightarrow> jsstring" where
  "lowerUnits c = (if c = 304 then [105, 775] else [lowerUnit c])"

definition toLowerCase :: "jsstring \<Rightarrow> jsstring" where
  "toLowerCase s = concat (map lowerUnits s)"

text \<open>
  \<open>toUpperCase\<close>, used on the installs string only: the small letters of Basic Latin, of
  Latin-1 (U+00E0..U+00FE) and of the basic Cyrillic block. A character that the model
  leaves alone and ECMAScript changes is outside the alphabet of the pattern of
  \<open>parseInstalls\<close> (digits, the dot, white space, K, M, B, T), and its upper case has a
  code unit outside it.
\<close>

definition upperUnit :: "nat \<Rightarrow> nat" where
  "upperUnit c =
     (if 97 \<le> c \<and> c \<le> 122 then c - 32
      else if 224 \<le> c \<and> c \<le> 254 \<and> c \<noteq> 247 then c - 32
      else if 1072 \<le> c \<and> c \<le> 1103 then c - 32
      else if 1104 \<le> c \<and> c \<le> 1119 then c - 80
      else c)"

definition toUpperCase :: "jsstring \<Rightarrow> jsstring" where
  "toUpperCase s = map upperUnit s"

text \<open>\<open>a.includes(b)\<close>: \<open>b\<close> occurs in \<open>a\<close> as a contiguous run.\<close>

fun startsWith :: "jsstring \<Rightarrow> jsstring \<Rightarrow> bool" where
  "startsWith s [] = True"
| "startsWith [] (c # cs) = False"
| "startsWith (d # ds) (c # cs) = (d = c \<and> startsWith ds cs)"

fun includesStr :: "jsstring \<Rightarrow> jsstring \<Rightarrow> bool" where
  "includesStr [] b = (b = [])"
| "includesStr (c # cs) b = (startsWith (c # cs) b \<or> includesStr cs b)"

section \<open>Filler tables\<close>

definition UNIVERSAL_FILLER :: "jsstring list" where
  "UNIVERSAL_FILLER = map js
     [''for android'', ''for phone'', ''for mobile'', ''pro'', ''free'', ''app'',
      ''lite'', ''plus'', ''premium'', ''mod'', ''the'', ''a'', ''an'',
      ''new'', ''best'', ''top'', ''ultimate'', ''official'']"

definition CATEGORY_FILLER_entries :: "(string \<times> string list) list" where
  "CATEGORY_FILLER_entries =
     [(''Tools'', [''tool'', ''tools'', ''utility'', ''utilities'', ''helper'']),
      (''Communication'', [''messenger'', ''messaging'', ''chat'', ''call'', ''calling'']),
      (''Photography'', [''photo'', ''camera'', ''picture'', ''pic'', ''image'']),
      (''Music & Audio'', [''music'', ''player'', ''audio'', ''sound'', ''mp3'']),
      (''Entertainment'', [''entertainment'', ''fun'', ''funny'']),
      (''Education'', [''learn'', ''learning'', ''education'', ''study'', ''school'']),
      (''Health & Fitness'', [''health'', ''fitness'', ''workout'', ''exercise'']),
      (''Finance'', [''finance'', ''money'', ''bank'', ''banking'', ''pay'', ''payment'']),
      (''Productivity'', [''productivity'', ''organizer'', ''planner'']),
      (''Shopping'', [''shopping'', ''shop'', ''store'', ''deals'', ''coupons'', ''sale'']),
      (''Social'', [''social'', ''network'', ''friends'', ''community'']),
      (''Travel & Local'', [''travel'', ''hotel'', ''flights'', ''booking'', ''trip'', ''guide'']),
      (''Weather'', [''weather'', ''forecast'', ''radar'', ''climate'']),
      (''Lifestyle'', [''lifestyle'', ''fashion'', ''style'', ''beauty'']),
      (''Video Players & Editors'', [''video'', ''player'', ''editor'', ''movie'', ''clip'']),
      (''Maps & Navigation'', [''maps'', ''map'', ''navigation'', ''gps'', ''directions'']),
      (''News & Magazines'', [''news'', ''magazine'', ''headlines'', ''daily'']),
      (''Food & Drink'', [''food'', ''recipe'', ''restaurant'', ''cooking'', ''delivery'']),
      (''Business'', [''business'', ''office'', ''corporate'', ''enterprise''])]"

text \<open>
  \<open>CATEGORY_FILLER\<close> is an object literal, so \<open>CATEGORY_FILLER[category]\<close> also finds
  the properties that every object inherits from \<open>Object.prototype\<close>. Such a value is
  truthy and is not iterable.
\<close>

definition objectPrototypeKeys :: "jsstring list" where
  "objectPrototypeKeys = map js
     [''constructor'', ''hasOwnProperty'', ''isPrototypeOf'', ''propertyIsEnumerable'',
      ''toLocaleString'', ''toString'', ''valueOf'', ''__proto__'',
      ''__defineGetter__'', ''__defineSetter__'', ''__lookupGetter__'', ''__lookupSetter__'']"

datatype fillerLookup = Undefined | Fillers "jsstring list" | Inherited

definition CATEGORY_FILLER :: "jsstring \<Rightarrow> fillerLookup" where
  "CATEGORY_FILLER category =
     (case map_of (map (\<lambda>(k, ws). (js k, map js ws)) CATEGORY_FILLER_entries) category of
        Some ws \<Rightarrow> Fillers ws
      | None \<Rightarrow> if category \<in> set objectPrototypeKeys then Inherited else Undefined)"

section \<open>Brand tokens and title classification\<close>

fun hasLowerThenUpper :: "jsstring \<Rightarrow> bool" where
  "hasLowerThenUpper (c # d # cs) = ((isLowerAZ c \<and> isUpperAZ d) \<or> hasLowerThenUpper (d # cs))"
| "hasLowerThenUpper cs = False"

definition isBrandToken :: "jsstring \<Rightarrow> bool" where
  "isBrandToken originalWord \<longleftrightarrow>
     hasLowerThenUpper originalWord \<or>
     (2 \<le> length originalWord \<and> list_all isUpperAZ originalWord) \<or>
     (list_ex (\<lambda>c. isLowerAZ c \<or> isUpperAZ c) originalWord \<and> list_ex isDigit originalWord) \<or>
     list_ex (\<lambda>c. c \<in> set [8482, 174, 169]) originalWord"

datatype titleType = brand | descriptive | mixed

record classification =
  type :: titleType
  brandWords :: "jsstring list"
  otherWords :: "jsstring list"

definition classifyWord :: "jsstring list \<times> jsstring list \<Rightarrow> jsstring \<Rightarrow> jsstring list \<times> jsstring list" where
  "classifyWord acc w =
     (let clean = removeClass punctFull w in
      if clean = [] then acc
      else if isBrandToken clean then (fst acc @ [clean], snd acc)
      else (fst acc, snd acc @ [clean]))"

definition classifyTitle :: "jsstring \<Rightarrow> classification" where
  "classifyTitle title =
     (let words = splitWs (trim title);
          (brandWords, otherWords) = foldl classifyWord ([], []) words;
          meaningfulOther =
            filter (\<lambda>w. let lower = toLowerCase w in
                          lower \<notin> set UNIVERSAL_FILLER \<and> 2 \<le> length lower) otherWords
      in if brandWords \<noteq> [] \<and> meaningfulOther = [] then
           \<lparr>type = brand, brandWords = brandWords, otherWords = meaningfulOther\<rparr>
         else if brandWords \<noteq> [] \<and> meaningfulOther \<noteq> [] then
           \<lparr>type = mixed, brandWords = brandWords, otherWords = meaningfulOther\<rparr>
         else \<lparr>type = descriptive, brandWords = brandWords, otherWords = meaningfulOther\<rparr>)"

section \<open>Cleaning the search query\<close>

datatype error = TypeError | URIError | BrowserError

text \<open>
  \<open>cleaned.replace(new RegExp(`\bphrase\b`, 'gi'), ' ')\<close> for a literal phrase. With
  the flag \<open>i\<close> two code units match when their canonical (upper-case) forms agree, and
  a code unit outside ASCII is never canonicalised to an ASCII one. \<open>\b\<close> holds where
  exactly one of the two neighbours is a word character; the ends of the string count
  as non-word. The scan goes left to right and resumes behind each match. Every phrase
  of the tables is non-empty.
\<close>

definition canonicalize :: "nat \<Rightarrow> nat" where
  "canonicalize c = (if isLowerAZ c then c - 32 else c)"

definition wordBoundary :: "bool \<Rightarrow> jsstring \<Rightarrow> bool" where
  "wordBoundary prevWord rest \<longleftrightarrow>
     prevWord \<noteq> (case rest of [] \<Rightarrow> False | c # _ \<Rightarrow> isWordChar c)"

definition matchesAt :: "jsstring \<Rightarrow> bool \<Rightarrow> jsstring \<Rightarrow> bool" where
  "matchesAt phrase prevWord s \<longleftrightarrow>
     phrase \<noteq> [] \<and> length phrase \<le> length s \<and>
     wordBoundary prevWord s \<and>
     map canonicalize (take (length phrase) s) = map canonicalize phrase \<and>
     wordBoundary (isWordChar (last (take (length phrase) s))) (drop (length phrase) s)"

function replaceWordFrom :: "jsstring \<Rightarrow> bool \<Rightarrow> jsstring \<Rightarrow> jsstring" where
  "replaceWordFrom phrase prevWord [] = []"
| "replaceWordFrom phrase prevWord (c # cs) =
     (if matchesAt phrase prevWord (c # cs)
      then 32 # replaceWordFrom phrase (isWordChar (last (take (length phrase) (c # cs))))
                  (drop (length phrase) (c # cs))
      else c # replaceWordFrom phrase (isWordChar c) cs)"
  by pat_completeness auto
termination
  by (relation "measure (\<lambda>(phrase, prevWord, s). length s)")
     (auto simp: matchesAt_def)

definition replaceWord :: "jsstring \<Rightarrow> jsstring \<Rightarrow> jsstring" where
  "replaceWord phrase s = replaceWordFrom phrase False s"

text \<open>
  The protected words: the lower-cased brand tokens and the lower-cased first word,
  each after the punctuation is removed; a word that is only punctuation protects nothing.
\<close>

definition protectedWords :: "jsstring list \<Rightarrow> jsstring list" where
  "protectedWords words =
     concat (map (\<lambda>(i, w). let clean = removeClass punctFull w in
                             if clean = [] then []
                             else if isBrandToken clean \<or> i = 0 then [toLowerCase clean]
                             else [])
                 (enumerate 0 words))"

definition removeUniversal :: "jsstring list \<Rightarrow> jsstring \<Rightarrow> jsstring" where
  "removeUniversal protected cleaned =
     foldl (\<lambda>cleaned phrase.
              let phraseWords = splitWs phrase in
              if length phraseWords = 1 \<and> hd phraseWords \<in> set protected then cleaned
              else replaceWord phrase cleaned)
           cleaned UNIVERSAL_FILLER"

definition removeCategory :: "jsstring list \<Rightarrow> jsstring list \<Rightarrow> jsstring \<Rightarrow> jsstring" where
  "removeCategory protected catFillers cleaned =
     foldl (\<lambda>cleaned word. if word \<in> set protected then cleaned else replaceWord word cleaned)
           cleaned catFillers"

definition softClean :: "jsstring \<Rightarrow> jsstring" where
  "softClean title = toLowerCase (trim (collapseWs (replaceClass punctFull title)))"

definition cleanSearchQuery :: "jsstring \<Rightarrow> jsstring \<Rightarrow> error + jsstring" where
  "cleanSearchQuery title category =
     (let words = splitWs (trim title) in
      if length words \<le> 2 then
        (let cleaned = trim (collapseWs (replaceClass punctShort title))
         in Inr (if 2 \<le> length cleaned then cleaned else title))
      else
        (let protected = protectedWords words;
             cleaned = removeUniversal protected (toLowerCase title)
         in case CATEGORY_FILLER category of
              Inherited \<Rightarrow> Inl TypeError
            | catFillers \<Rightarrow>
                (let cleaned = (case catFillers of
                                  Fillers ws \<Rightarrow> removeCategory protected ws cleaned
                                | _ \<Rightarrow> cleaned);
                     cleaned = trim (collapseWs (replaceClass punctFull cleaned));
                     remainingWords = filter (\<lambda>w. 2 \<le> length w) (splitWs cleaned);
                     cleaned = (if length remainingWords < 2 \<or> length cleaned < 3
                                then softClean title else cleaned)
                 in Inr (if 2 \<le> length cleaned then cleaned else title))))"

section \<open>Relevance of a competitor\<close>

text \<open>
  The relevance score is computed here in exact arithmetic on the word counts: it is a
  sum of at most three terms, compared with a threshold.
\<close>

text \<open>
  A competitor object. \<open>relevance\<close> and \<open>relevant\<close> are the two properties that
  \<open>checkRuStore\<close> assigns later; \<open>None\<close> means that the object does not have the property.
  \<open>rating = None\<close> is \<open>null\<close>.
\<close>

record competitor =
  name :: jsstring
  category :: jsstring
  rating :: "real option"
  url :: jsstring
  relevance :: "real option"
  relevant :: "bool option"

definition RELEVANCE_THRESHOLD :: real where
  "RELEVANCE_THRESHOLD = 15 / 100"

text \<open>\<open>new Set(s.toLowerCase().split(/\s+/).filter(w => w.length >= 2))\<close>, as the list of its members.\<close>

definition wordSet :: "jsstring \<Rightarrow> jsstring list" where
  "wordSet s = remdups (filter (\<lambda>w. 2 \<le> length w) (splitWs (toLowerCase s)))"

definition wordJaccard :: "jsstring \<Rightarrow> jsstring \<Rightarrow> real" where
  "wordJaccard a b =
     (let setA = wordSet a; setB = wordSet b in
      if length setA = 0 \<or> length setB = 0 then 0
      else
        (let intersection = foldl (\<lambda>n w. if w \<in> set setB then n + 1 else n) (0::nat) setA
         in real intersection / real (length (remdups (setA @ setB)))))"

definition substringMatch :: "jsstring \<Rightarrow> jsstring \<Rightarrow> bool" where
  "substringMatch a b =
     (let al = trim (toLowerCase a); bl = trim (toLowerCase b) in
      if length al < 2 \<or> length bl < 2 then False
      else includesStr al bl \<or> includesStr bl al)"

definition calculateRelevance :: "competitor \<Rightarrow> jsstring \<Rightarrow> jsstring \<Rightarrow> real" where
  "calculateRelevance c searchQuery cleanedTitle =
     (let jaccardQuery = wordJaccard (name c) searchQuery;
          jaccardOriginal = wordJaccard (name c) cleanedTitle;
          bestJaccard = max jaccardQuery jaccardOriginal;
          score = bestJaccard * (6 / 10);
          score = (if substringMatch (name c) searchQuery \<or> substringMatch (name c) cleanedTitle
                   then score + 3 / 10 else score);
          score = (if rating c \<noteq> None then score + 1 / 10 else score)
      in min 1 score)"

section \<open>Double-precision arithmetic\<close>

text \<open>
  A JavaScript number is an IEEE 754 binary64 value, and \<open>+\<close>, \<open>-\<close>, \<open>*\<close>, \<open>/\<close> and a
  decimal literal give the double nearest to the exact result, a tie going to the even
  significand. A finite double is modelled by the real number it denotes and an
  operation by the exact operation followed by \<open>roundDouble\<close>. For \<open>x\<close> with
  \<open>2^e \<le> |x| < 2^(e+1)\<close> the doubles around \<open>x\<close> are the multiples of \<open>2^(e-52)\<close>. The
  exponent range is not bounded here: overflow to \<open>Infinity\<close> (beyond about 1.8e308) and
  gradual underflow (below about 2.2e-308) are not modelled. \<open>NaN\<close> is kept apart where
  the code can produce it (\<open>parseFloat\<close>).
\<close>

definition roundHalfEven :: "real \<Rightarrow> int" where
  "roundHalfEven m =
     (let n = \<lfloor>m\<rfloor>; r = m - of_int n in
      if r < 1 / 2 then n else if 1 / 2 < r then n + 1 else if even n then n else n + 1)"

definition ulpExponent :: "real \<Rightarrow> int" where
  "ulpExponent x = \<lfloor>log 2 \<bar>x\<bar>\<rfloor> - 52"

definition roundDouble :: "real \<Rightarrow> real" where
  "roundDouble x =
     (if x = 0 then 0
      else of_int (roundHalfEven (x / 2 powr of_int (ulpExponent x)))
           * 2 powr of_int (ulpExponent x))"

definition dadd :: "real \<Rightarrow> real \<Rightarrow> real" where
  "dadd x y = roundDouble (x + y)"

definition dsub :: "real \<Rightarrow> real \<Rightarrow> real" where
  "dsub x y = roundDouble (x - y)"

definition dmul :: "real \<Rightarrow> real \<Rightarrow> real" where
  "dmul x y = roundDouble (x * y)"

definition ddiv :: "real \<Rightarrow> real \<Rightarrow> real" where
  "ddiv x y = roundDouble (x / y)"

text \<open>
  \<open>Math.log10\<close> is implementation-approximated in ECMAScript. The model takes the double
  nearest to the exact logarithm; an engine may return a neighbouring double.
\<close>

definition mathLog10 :: "real \<Rightarrow> real" where
  "mathLog10 x = roundDouble (log 10 x)"

text \<open>\<open>Math.round\<close>: the nearest integer, a tie going up. It is exact on a double.\<close>

definition mathRound :: "real \<Rightarrow> int" where
  "mathRound x = \<lfloor>x + 1 / 2\<rfloor>"

section \<open>Opportunity score\<close>

datatype jsnum = NaN | Num real

definition mulNum :: "jsnum \<Rightarrow> real \<Rightarrow> jsnum" where
  "mulNum x m = (case x of NaN \<Rightarrow> NaN | Num r \<Rightarrow> Num (dmul r m))"

definition isNumChar :: "nat \<Rightarrow> bool" where
  "isNumChar c \<longleftrightarrow> isDigit c \<or> c = 46"

definition digitsValue :: "jsstring \<Rightarrow> nat" where
  "digitsValue ds = foldl (\<lambda>acc c. 10 * acc + (c - 48)) 0 ds"

text \<open>
  \<open>parseFloat\<close> on the first capture group, a string of digits and dots: it reads the
  longest prefix of the form digits, digits.digits, digits. or .digits, and gives \<open>NaN\<close>
  when that prefix has no digit, else the double nearest to the decimal value.
\<close>

definition parseFloat :: "jsstring \<Rightarrow> jsnum" where
  "parseFloat s =
     (let intPart = takeWhile isDigit s;
          rest = dropWhile isDigit s;
          fracPart = (case rest of [] \<Rightarrow> [] | c # r \<Rightarrow> if c = 46 then takeWhile isDigit r else [])
      in if intPart = [] \<and> fracPart = [] then NaN
         else Num (roundDouble
                     (real (digitsValue intPart)
                      + real (digitsValue fracPart) / 10 ^ length fracPart)))"

text \<open>
  \<open>str.match(/^([\d.]+)\s*([KMBT]?)$/)\<close>. The three classes are disjoint, so the greedy
  match is the only one: all leading digits and dots, then all white space, then nothing
  or one of K, M, B, T up to the end.
\<close>

definition matchInstalls :: "jsstring \<Rightarrow> (jsstring \<times> jsstring) option" where
  "matchInstalls str =
     (let num = takeWhile isNumChar str;
          suffix = dropWhile isWhiteSpace (dropWhile isNumChar str)
      in if num \<noteq> [] \<and> suffix \<in> {[], [75], [77], [66], [84]} then Some (num, suffix)
         else None)"

definition multipliers :: "jsstring \<Rightarrow> real" where
  "multipliers suffix =
     (if suffix = [75] then 10 ^ 3 else if suffix = [77] then 10 ^ 6
      else if suffix = [66] then 10 ^ 9 else if suffix = [84] then 10 ^ 12 else 1)"

definition parseInstalls :: "jsstring \<Rightarrow> jsnum" where
  "parseInstalls installsStr =
     (if installsStr = [] \<or> installsStr = js ''N/A'' then Num 0
      else
        (let str = toUpperCase (trim (filter (\<lambda>c. c \<noteq> 43 \<and> c \<noteq> 44) installsStr)) in
         case matchInstalls str of
           None \<Rightarrow> Num 0
         | Some (num, suffix) \<Rightarrow> mulNum (parseFloat num) (multipliers suffix)))"

datatype installsValue = InstallsStr jsstring | InstallsNum real

record competitorStats =
  competitorsCount :: real
  avgRating :: "real option"
  maxRating :: "real option"

record scoreInput = competitorStats +
  gpRating :: real
  installs :: installsValue

text \<open>
  The inputs are doubles. The sum \<open>0.30 * f1 + 0.25 * f2 + 0.25 * f3 + 0.10 * f4 + 0.10 * f5\<close>
  is evaluated from the left, each product and each sum rounded. A numeric \<open>installs\<close>
  passes through \<open>installs || 0\<close> unchanged.
\<close>

definition calculateOpportunityScore :: "scoreInput \<Rightarrow> int" where
  "calculateOpportunityScore inp =
     (let f1 = max 0 (dsub 1 (ddiv (competitorsCount inp) 20));
          f2 = (case avgRating inp of
                  None \<Rightarrow> roundDouble (7 / 10)
                | Some a \<Rightarrow> max 0 (dsub 1 (ddiv (dsub a 2) 3)));
          installsNum = (case installs inp of
                           InstallsStr s \<Rightarrow> parseInstalls s
                         | InstallsNum n \<Rightarrow> Num n);
          f3 = (case installsNum of
                  Num n \<Rightarrow> if n > 0 then min 1 (ddiv (mathLog10 (dadd n 1)) 9) else 0
                | NaN \<Rightarrow> 0);
          f4 = max 0 (min 1 (ddiv (dsub (gpRating inp) (5 / 2)) 2));
          f5 = (case maxRating inp of None \<Rightarrow> 1 | Some m \<Rightarrow> max 0 (dsub 1 (ddiv (dsub m 2) 3)));
          raw = dadd (dadd (dadd (dadd (dmul (roundDouble (3 / 10)) f1)
                                       (dmul (1 / 4) f2))
                                 (dmul (1 / 4) f3))
                           (dmul (roundDouble (1 / 10)) f4))
                     (dmul (roundDouble (1 / 10)) f5);
          score = mathRound (dmul 100 raw)
      in max 0 (min 100 score))"

section \<open>The check pipeline\<close>

text \<open>
  \<open>encodeURIComponent\<close>: the unreserved characters \<open>A-Z a-z 0-9 - _ . ! ~ * ' ( )\<close>
  stay, every other code point is written as the percent-escaped bytes of its UTF-8
  form, and a surrogate that is not part of a pair raises \<open>URIError\<close>.
\<close>

definition uriUnescaped :: "nat \<Rightarrow> bool" where
  "uriUnescaped c \<longleftrightarrow>
     isUpperAZ c \<or> isLowerAZ c \<or> isDigit c \<or> c \<in> set [45, 95, 46, 33, 126, 42, 39, 40, 41]"

definition isLeadSurrogate :: "nat \<Rightarrow> bool" where
  "isLeadSurrogate c \<longleftrightarrow> 55296 \<le> c \<and> c \<le> 56319"

definition isTrailSurrogate :: "nat \<Rightarrow> bool" where
  "isTrailSurrogate c \<longleftrightarrow> 56320 \<le> c \<and> c \<le> 57343"

definition hexDigit :: "nat \<Rightarrow> nat" where
  "hexDigit n = (if n < 10 then 48 + n else 55 + n)"

definition percentByte :: "nat \<Rightarrow> jsstring" where
  "percentByte b = [37, hexDigit (b div 16), hexDigit (b mod 16)]"

definition utf8 :: "nat \<Rightarrow> nat list" where
  "utf8 cp =
     (if cp < 128 then [cp]
      else if cp < 2048 then [192 + cp div 64, 128 + cp mod 64]
      else if cp < 65536 then [224 + cp div 4096, 128 + (cp div 64) mod 64, 128 + cp mod 64]
      else [240 + cp div 262144, 128 + (cp div 4096) mod 64, 128 + (cp div 64) mod 64,
            128 + cp mod 64])"

definition escapeCodePoint :: "nat \<Rightarrow> jsstring" where
  "escapeCodePoint cp = concat (map percentByte (utf8 cp))"

definition prepend :: "jsstring \<Rightarrow> error + jsstring \<Rightarrow> error + jsstring" where
  "prepend p r = (case r of Inl e \<Rightarrow> Inl e | Inr s \<Rightarrow> Inr (p @ s))"

fun encodeURIComponent :: "jsstring \<Rightarrow> error + jsstring" where
  "encodeURIComponent [] = Inr []"
| "encodeURIComponent [c] =
     (if uriUnescaped c then Inr [c]
      else if isLeadSurrogate c \<or> isTrailSurrogate c then Inl URIError
      else Inr (escapeCodePoint c))"
| "encodeURIComponent (c # d # cs) =
     (if uriUnescaped c then prepend [c] (encodeURIComponent (d # cs))
      else if isLeadSurrogate c then
        (if isTrailSurrogate d
         then prepend (escapeCodePoint ((c - 55296) * 1024 + (d - 56320) + 65536))
                (encodeURIComponent cs)
         else Inl URIError)
      else if isTrailSurrogate c then Inl URIError
      else prepend (escapeCodePoint c) (encodeURIComponent (d # cs)))"

definition RUSTORE_SEARCH_URL :: jsstring where
  "RUSTORE_SEARCH_URL = js ''https://www.rustore.ru/catalog/search?query=''"

text \<open>
  The competitor objects live in a store, and the array \<open>competitors\<close> holds their
  addresses: the loop \<open>for (const c of competitors) { c.relevance = ...; c.relevant = ... }\<close>
  assigns to the objects that the array refers to.
\<close>

type_synonym addr = nat
type_synonym store = "addr \<Rightarrow> competitor option"

definition scoreCompetitor :: "competitor \<Rightarrow> jsstring \<Rightarrow> jsstring \<Rightarrow> competitor" where
  "scoreCompetitor c searchQuery cleaned =
     (let c = c\<lparr>relevance := Some (calculateRelevance c searchQuery cleaned)\<rparr>
      in c\<lparr>relevant := Some (case relevance c of None \<Rightarrow> False
                                | Some r \<Rightarrow> RELEVANCE_THRESHOLD \<le> r)\<rparr>)"

fun scoreLoop :: "store \<Rightarrow> addr list \<Rightarrow> jsstring \<Rightarrow> jsstring \<Rightarrow> store" where
  "scoreLoop h [] searchQuery cleaned = h"
| "scoreLoop h (a # as) searchQuery cleaned =
     (case h a of
        None \<Rightarrow> scoreLoop h as searchQuery cleaned
      | Some c \<Rightarrow> scoreLoop (h(a \<mapsto> scoreCompetitor c searchQuery cleaned)) as searchQuery cleaned)"

definition deref :: "store \<Rightarrow> addr list \<Rightarrow> competitor list" where
  "deref h as = concat (map (\<lambda>a. case h a of None \<Rightarrow> [] | Some c \<Rightarrow> [c]) as)"

definition allocate :: "competitor list \<Rightarrow> store" where
  "allocate cs = (\<lambda>a. if a < length cs then Some (cs ! a) else None)"

record report = competitorStats +
  searchQuery :: jsstring
  searchUrl :: jsstring
  topCompetitors :: "competitor list"
  opportunityScore :: int

text \<open>
  What the headless browser did with the search URL: no card appeared before the
  time-out (\<open>NoCards\<close>); the navigation failed after its retries or the extraction threw,
  which the code catches (\<open>NavigationFailed\<close>); the page gave the listed cards; or the
  browser itself failed outside the guarded block (\<open>BrowserFailed\<close>).
\<close>

datatype fetchOutcome = NoCards | NavigationFailed | Cards "competitor list" | BrowserFailed

definition ratingOrZero :: "competitor \<Rightarrow> real" where
  "ratingOrZero c = (case rating c of None \<Rightarrow> 0 | Some r \<Rightarrow> r)"

definition gpRatingOrZero :: "real option \<Rightarrow> real" where
  "gpRatingOrZero g = (case g of None \<Rightarrow> 0 | Some r \<Rightarrow> r)"

definition installsOrNA :: "installsValue option \<Rightarrow> installsValue" where
  "installsOrNA i =
     (case i of
        None \<Rightarrow> InstallsStr (js ''N/A'')
      | Some (InstallsStr s) \<Rightarrow> if s = [] then InstallsStr (js ''N/A'') else InstallsStr s
      | Some (InstallsNum n) \<Rightarrow> if n = 0 then InstallsStr (js ''N/A'') else InstallsNum n)"

text \<open>
  \<open>checkRuStore\<close>. \<open>translateToRussian\<close> stands for the awaited result of the
  translation call, which catches its own failures and returns a string; \<open>fetch\<close> is the
  browser's outcome for a search URL. \<open>gpRating\<close> and \<open>installs\<close> may be missing
  (\<open>undefined\<close>, \<open>null\<close>).
\<close>

definition checkRuStore ::
  "(jsstring \<Rightarrow> jsstring) \<Rightarrow> (jsstring \<Rightarrow> fetchOutcome) \<Rightarrow>
   jsstring \<Rightarrow> jsstring \<Rightarrow> real option \<Rightarrow> installsValue option \<Rightarrow> error + report" where
  "checkRuStore translateToRussian fetch title cat gp inst =
     (let classification = classifyTitle title in
      case cleanSearchQuery title cat of
        Inl e \<Rightarrow> Inl e
      | Inr cleaned \<Rightarrow>
          (let query = (if type classification = descriptive then translateToRussian cleaned
                        else cleaned)
           in case encodeURIComponent query of
                Inl e \<Rightarrow> Inl e
              | Inr enc \<Rightarrow>
                  (let surl = RUSTORE_SEARCH_URL @ enc in
                   case fetch surl of
                     BrowserFailed \<Rightarrow> Inl BrowserError
                   | NoCards \<Rightarrow>
                       (let score = calculateOpportunityScore
                              \<lparr>competitorsCount = 0, avgRating = None, maxRating = None,
                               gpRating = gpRatingOrZero gp, installs = installsOrNA inst\<rparr>
                        in Inr \<lparr>competitorsCount = 0, avgRating = None, maxRating = None,
                                searchQuery = query, searchUrl = surl, topCompetitors = [],
                                opportunityScore = score\<rparr>)
                   | outcome \<Rightarrow>
                       (let found = (case outcome of Cards cs \<Rightarrow> cs | _ \<Rightarrow> []);
                            competitors = [0..<length found];
                            h = scoreLoop (allocate found) competitors query cleaned;
                            relevantOnes = filter (\<lambda>c. relevant c = Some True) (deref h competitors);
                            count = real (length relevantOnes);
                            ratingsOnly = concat (map (\<lambda>c. case rating c of None \<Rightarrow> [] | Some r \<Rightarrow> [r])
                                                      relevantOnes);
                            avg = (if ratingsOnly \<noteq> []
                                   then Some (ddiv (real_of_int (mathRound
                                     (dmul (ddiv (foldl dadd 0 ratingsOnly)
                                                 (real (length ratingsOnly))) 10))) 10)
                                   else None);
                            mx = (if ratingsOnly \<noteq> []
                                  then Some (fold max (tl ratingsOnly) (hd ratingsOnly))
                                  else None);
                            top = take 5 (sort_key (\<lambda>c. - ratingOrZero c) relevantOnes);
                            score = calculateOpportunityScore
                              \<lparr>competitorsCount = count, avgRating = avg, maxRating = mx,
                               gpRating = gpRatingOrZero gp, installs = installsOrNA inst\<rparr>
                        in Inr \<lparr>competitorsCount = count, avgRating = avg, maxRating = mx,
                                searchQuery = query, searchUrl = surl, topCompetitors = top,
                                opportunityScore = score\<rparr>))))"

section \<open>Properties named by the specification\<close>

text \<open>
  White space is collapsed: the only white space is U+0020, never at either end and
  never next to another white-space character.
\<close>

fun noSpaceRun :: "jsstring \<Rightarrow> bool" where
  "noSpaceRun (c # d # cs) = (\<not> (isWhiteSpace c \<and> isWhiteSpace d) \<and> noSpaceRun (d # cs))"
| "noSpaceRun cs = True"

definition wsCollapsed :: "jsstring \<Rightarrow> bool" where
  "wsCollapsed q \<longleftrightarrow>
     list_all (\<lambda>c. isWhiteSpace c \<longrightarrow> c = 32) q \<and>
     (q \<noteq> [] \<longrightarrow> \<not> isWhiteSpace (hd q) \<and> \<not> isWhiteSpace (last q)) \<and>
     noSpaceRun q"

text \<open>
  The relevance score in the words of the specification: token sets, their Jaccard
  index, and the substring test on the trimmed, lower-cased strings.
\<close>

definition spec_tokens :: "jsstring \<Rightarrow> jsstring set" where
  "spec_tokens s = {w \<in> set (splitWs (toLowerCase s)). 2 \<le> length w}"

definition spec_jaccard :: "jsstring \<Rightarrow> jsstring \<Rightarrow> real" where
  "spec_jaccard a b =
     (if spec_tokens a = {} \<or> spec_tokens b = {} then 0
      else real (card (spec_tokens a \<inter> spec_tokens b)) / real (card (spec_tokens a \<union> spec_tokens b)))"

definition spec_contains :: "jsstring \<Rightarrow> jsstring \<Rightarrow> bool" where
  "spec_contains a b \<longleftrightarrow> (\<exists>xs ys. a = xs @ b @ ys)"

definition spec_substring :: "jsstring \<Rightarrow> jsstring \<Rightarrow> bool" where
  "spec_substring a b \<longleftrightarrow>
     2 \<le> length (trim (toLowerCase a)) \<and> 2 \<le> length (trim (toLowerCase b)) \<and>
     (spec_contains (trim (toLowerCase a)) (trim (toLowerCase b)) \<or>
      spec_contains (trim (toLowerCase b)) (trim (toLowerCase a)))"

definition spec_relevance :: "competitor \<Rightarrow> jsstring \<Rightarrow> jsstring \<Rightarrow> real" where
  "spec_relevance c q t =
     min 1 (6 / 10 * max (spec_jaccard (name c) q) (spec_jaccard (name c) t)
            + (if spec_substring (name c) q \<or> spec_substring (name c) t then 3 / 10 else 0)
            + (if rating c \<noteq> None then 1 / 10 else 0))"









text \<open>
  The pattern \<open>^([\d.]+)\s*([KMBT]?)$\<close> as a language: a non-empty run of digits and
  dots, then white space, then nothing or one of K, M, B, T.
\<close>

definition spec_installs_match :: "jsstring \<Rightarrow> jsstring \<Rightarrow> jsstring \<Rightarrow> bool" where
  "spec_installs_match str num suffix \<longleftrightarrow>
     (\<exists>ws. str = num @ ws @ suffix \<and> num \<noteq> [] \<and> list_all isNumChar num \<and>
           list_all isWhiteSpace ws \<and> suffix \<in> {[], [75], [77], [66], [84]})"

text \<open>
  Two abbreviations for the proofs about the score: the clamped, rounded weighted sum as
  a function of the five factors, and the third factor as a function of a numeric
  installs value.
\<close>

definition rawScore :: "real \<Rightarrow> real \<Rightarrow> real \<Rightarrow> real \<Rightarrow> real \<Rightarrow> int" where
  "rawScore f1 f2 f3 f4 f5 =
     max 0 (min 100 (mathRound (dmul 100
       (dadd (dadd (dadd (dadd (dmul (roundDouble (3 / 10)) f1) (dmul (1 / 4) f2))
                         (dmul (1 / 4) f3))
                   (dmul (roundDouble (1 / 10)) f4))
             (dmul (roundDouble (1 / 10)) f5)))))"

definition f3num :: "real \<Rightarrow> real" where
  "f3num n = (if n > 0 then min 1 (ddiv (mathLog10 (dadd n 1)) 9) else 0)"

section \<open>Evaluation on concrete strings\<close>

lemmas string_defs =
  js_def splitWs_def trim_def isWhiteSpace_def isUpperAZ_def isLowerAZ_def isDigit_def
  isWordChar_def punctShort_def punctFull_def replaceClass_def removeClass_def
  lowerUnit_def lowerUnits_def toLowerCase_def upperUnit_def toUpperCase_def

section \<open>Title classification\<close>

lemma classifyWord_foldl:
  "foldl classifyWord (bs, os) ws =
     (bs @ filter isBrandToken (filter (\<lambda>w. w \<noteq> []) (map (removeClass punctFull) ws)),
      os @ filter (\<lambda>w. \<not> isBrandToken w) (filter (\<lambda>w. w \<noteq> []) (map (removeClass punctFull) ws)))"
  by (induction ws arbitrary: bs os) (simp_all add: classifyWord_def Let_def)

text \<open>
  Lower-casing can lengthen a word. The title \<open>VPN\<close> followed by the single letter U+0130
  has one brand word, and the letter is kept as a meaningful word, because its lower case
  has two code units: the title is \<open>mixed\<close>. A single ASCII letter in its place is dropped,
  and the title is a \<open>brand\<close>.
\<close>

lemma classifyTitle_lengthened:
  "classifyTitle (js ''VPN '' @ [304]) =
     \<lparr>type = mixed, brandWords = [js ''VPN''], otherWords = [304] # []\<rparr> \<and>
   classifyTitle (js ''VPN I'') =
     \<lparr>type = brand, brandWords = [js ''VPN''], otherWords = []\<rparr>"
  by (simp add: string_defs classifyTitle_def classifyWord_def isBrandToken_def
      UNIVERSAL_FILLER_def)

text \<open>
  C6. \<open>classifyTitle\<close> is a total function into the three types. With the tokens of a
  title being its white-space separated words after the punctuation is removed (empty
  ones dropped), \<open>brandWords\<close> are the brand tokens and the returned \<open>otherWords\<close> are the
  other tokens whose lower-cased form is not a universal filler and has at least two code
  units (the code tests \<open>lower.length\<close>, and lower-casing may change the length). The type
  is \<open>brand\<close> iff \<open>brandWords\<close> is non-empty and \<open>otherWords\<close> is empty, \<open>mixed\<close> iff both are
  non-empty, and \<open>descriptive\<close> iff \<open>brandWords\<close> is empty.
\<close>

theorem classifyTitle_kind:
  "(type (classifyTitle title) = brand \<longleftrightarrow>
      brandWords (classifyTitle title) \<noteq> [] \<and> otherWords (classifyTitle title) = []) \<and>
   (type (classifyTitle title) = mixed \<longleftrightarrow>
      brandWords (classifyTitle title) \<noteq> [] \<and> otherWords (classifyTitle title) \<noteq> []) \<and>
   (type (classifyTitle title) = descriptive \<longleftrightarrow> brandWords (classifyTitle title) = []) \<and>
   brandWords (classifyTitle title) =
     filter isBrandToken
       (filter (\<lambda>w. w \<noteq> []) (map (removeClass punctFull) (splitWs (trim title)))) \<and>
   otherWords (classifyTitle title) =
     filter (\<lambda>w. toLowerCase w \<notin> set UNIVERSAL_FILLER \<and> 2 \<le> length (toLowerCase w))
       (filter (\<lambda>w. \<not> isBrandToken w)
         (filter (\<lambda>w. w \<noteq> []) (map (removeClass punctFull) (splitWs (trim title)))))"
  unfolding classifyTitle_def classifyWord_foldl Let_def
  by (simp del: filter_filter)

section \<open>The length of the search query\<close>

lemma cleanSearchQuery_cases:
  "cleanSearchQuery title cat = Inl TypeError \<or>
   cleanSearchQuery title cat = Inr title \<or>
   (\<exists>q. cleanSearchQuery title cat = Inr q \<and> 2 \<le> length q)"
  by (auto simp: cleanSearchQuery_def Let_def split: fillerLookup.splits)

lemma cleanSearchQuery_returns:
  "CATEGORY_FILLER cat \<noteq> Inherited \<or> length (splitWs (trim title)) \<le> 2 \<Longrightarrow>
   \<exists>q. cleanSearchQuery title cat = Inr q"
  by (auto simp: cleanSearchQuery_def Let_def split: fillerLookup.splits)

text \<open>
  A category that names an inherited property makes \<open>for (const word of catFillers)\<close>
  raise, on every title of more than two words. No own key of the table is such a name:
  the own keys start with a capital letter.
\<close>

lemma own_keys_upper:
  "list_all (\<lambda>(k, ws). k \<noteq> [] \<and> isUpperAZ (hd k)) (map (\<lambda>(k, ws). (js k, map js ws)) CATEGORY_FILLER_entries)"
  by (simp add: CATEGORY_FILLER_entries_def js_def isUpperAZ_def)

lemma inherited_keys_lower:
  "list_all (\<lambda>k. k = [] \<or> \<not> isUpperAZ (hd k)) objectPrototypeKeys"
  by (simp add: objectPrototypeKeys_def js_def isUpperAZ_def)

lemma map_of_None_by_head:
  "list_all (\<lambda>(k, v). k \<noteq> [] \<and> P (hd k)) kvs \<Longrightarrow> c = [] \<or> \<not> P (hd c) \<Longrightarrow> map_of kvs c = None"
  by (induction kvs) auto

lemma inherited_lookup: "cat \<in> set objectPrototypeKeys \<Longrightarrow> CATEGORY_FILLER cat = Inherited"
proof -
  assume a: "cat \<in> set objectPrototypeKeys"
  with inherited_keys_lower have "cat = [] \<or> \<not> isUpperAZ (hd cat)"
    by (simp add: list_all_iff)
  from map_of_None_by_head [OF own_keys_upper this] a show ?thesis
    by (simp add: CATEGORY_FILLER_def)
qed

lemma cleanSearchQuery_inherited_category:
  "2 < length (splitWs (trim title)) \<Longrightarrow> cat \<in> set objectPrototypeKeys \<Longrightarrow>
   cleanSearchQuery title cat = Inl TypeError"
  by (simp add: cleanSearchQuery_def Let_def inherited_lookup)

text \<open>
  C3, as the code has it. Whenever the category is not the name of a property inherited
  from \<open>Object.prototype\<close> (or the title has at most two words, where the category is
  not looked up), \<open>cleanSearchQuery\<close> returns a string; for a non-empty title it is
  non-empty, and for a title of at least two code units it has at least two code units.
  A title of fewer than two code units cannot be lengthened: the last guard returns it
  as it is.
\<close>

theorem cleanSearchQuery_length:
  assumes "CATEGORY_FILLER cat \<noteq> Inherited \<or> length (splitWs (trim title)) \<le> 2"
  shows "\<exists>q. cleanSearchQuery title cat = Inr q \<and>
             (title \<noteq> [] \<longrightarrow> q \<noteq> []) \<and> (2 \<le> length title \<longrightarrow> 2 \<le> length q)"
proof -
  from cleanSearchQuery_returns [OF assms]
  obtain q where q: "cleanSearchQuery title cat = Inr q" by blast
  with cleanSearchQuery_cases [of title cat]
  have "q = title \<or> 2 \<le> length q" by auto
  then have "(title \<noteq> [] \<longrightarrow> q \<noteq> []) \<and> (2 \<le> length title \<longrightarrow> 2 \<le> length q)" by auto
  with q show ?thesis by blast
qed

theorem cleanSearchQuery_length_witness:
  "\<exists>q. cleanSearchQuery (js ''Photo Editor Pro'') (js ''Photography'') = Inr q \<and>
       q \<noteq> [] \<and> 2 \<le> length q"
proof -
  have h: "CATEGORY_FILLER (js ''Photography'') \<noteq> Inherited
           \<or> length (splitWs (trim (js ''Photo Editor Pro''))) \<le> 2"
    by (simp add: CATEGORY_FILLER_def CATEGORY_FILLER_entries_def js_def)
  show ?thesis
    using cleanSearchQuery_length [OF h] by (simp add: js_def)
qed

theorem cleanSearchQuery_length_counterexample:
  "js ''a'' \<noteq> [] \<and> cleanSearchQuery (js ''a'') (js ''Tools'') = Inr (js ''a'') \<and>
   \<not> 2 \<le> length (js ''a'')"
  by (simp add: string_defs cleanSearchQuery_def)

section \<open>The shape of the search query\<close>

lemma set_collapseWs: "set (collapseWs s) \<subseteq> insert 32 (set s)"
proof (induction s rule: collapseWs.induct)
  case 1
  show ?case by simp
next
  case (2 c cs)
  show ?case
  proof (cases "isWhiteSpace c")
    case True
    with 2 have "set (collapseWs (dropWhile isWhiteSpace cs)) \<subseteq> insert 32 (set (dropWhile isWhiteSpace cs))"
      by simp
    moreover have "set (dropWhile isWhiteSpace cs) \<subseteq> set cs"
      by (auto dest: set_dropWhileD)
    ultimately show ?thesis using True by auto
  next
    case False
    with 2 show ?thesis by auto
  qed
qed

lemma set_trim: "set (trim s) \<subseteq> set s"
  by (auto simp: trim_def dest!: set_dropWhileD)

lemma collapseWs_only_space: "c \<in> set (collapseWs s) \<Longrightarrow> isWhiteSpace c \<Longrightarrow> c = 32"
proof (induction s rule: collapseWs.induct)
  case 1
  then show ?case by simp
next
  case (2 d ds)
  then show ?case by (cases "isWhiteSpace d") auto
qed

lemma hd_collapseWs:
  "s \<noteq> [] \<Longrightarrow> \<not> isWhiteSpace (hd s) \<Longrightarrow> hd (collapseWs s) = hd s \<and> collapseWs s \<noteq> []"
  by (cases s) auto

lemma noSpaceRun_Cons:
  "noSpaceRun (c # s) \<longleftrightarrow> (s = [] \<or> \<not> (isWhiteSpace c \<and> isWhiteSpace (hd s))) \<and> noSpaceRun s"
  by (cases s) auto

lemma noSpaceRun_collapseWs: "noSpaceRun (collapseWs s)"
proof (induction s rule: collapseWs.induct)
  case 1
  show ?case by simp
next
  case (2 c cs)
  show ?case
  proof (cases "isWhiteSpace c")
    case True
    let ?r = "dropWhile isWhiteSpace cs"
    have "collapseWs ?r = [] \<or> \<not> isWhiteSpace (hd (collapseWs ?r))"
    proof (cases "?r = []")
      case True
      then have "collapseWs ?r = []" by (simp only: collapseWs.simps)
      then show ?thesis by blast
    next
      case False
      then have nw: "\<not> isWhiteSpace (hd ?r)" by (rule hd_dropWhile)
      from hd_collapseWs [OF False nw] nw show ?thesis by metis
    qed
    with 2 True show ?thesis by (simp add: noSpaceRun_Cons)
  next
    case False
    with 2 show ?thesis by (simp add: noSpaceRun_Cons)
  qed
qed

lemma noSpaceRun_append: "noSpaceRun (xs @ ys) \<Longrightarrow> noSpaceRun xs \<and> noSpaceRun ys"
proof (induction xs)
  case Nil
  then show ?case by simp
next
  case (Cons x xs)
  then show ?case by (cases xs) (auto simp: noSpaceRun_Cons)
qed

lemma noSpaceRun_dropWhile: "noSpaceRun s \<Longrightarrow> noSpaceRun (dropWhile P s)"
  using noSpaceRun_append [of "takeWhile P s" "dropWhile P s"] by simp

lemma noSpaceRun_dropEnd: "noSpaceRun s \<Longrightarrow> noSpaceRun (rev (dropWhile P (rev s)))"
proof -
  assume a: "noSpaceRun s"
  have "s = rev (dropWhile P (rev s)) @ rev (takeWhile P (rev s))"
    by (metis rev_append rev_rev_ident takeWhile_dropWhile_id)
  with a noSpaceRun_append [of "rev (dropWhile P (rev s))" "rev (takeWhile P (rev s))"]
  show ?thesis by simp
qed

lemma noSpaceRun_trim: "noSpaceRun s \<Longrightarrow> noSpaceRun (trim s)"
  by (simp add: trim_def noSpaceRun_dropWhile noSpaceRun_dropEnd)

lemma last_dropWhile_nonempty: "dropWhile P s \<noteq> [] \<Longrightarrow> last (dropWhile P s) = last s"
  by (induction s) (auto split: if_splits)

lemma trim_ends:
  assumes "trim s \<noteq> []"
  shows "\<not> isWhiteSpace (hd (trim s)) \<and> \<not> isWhiteSpace (last (trim s))"
proof -
  let ?ys = "dropWhile isWhiteSpace s"
  let ?zs = "dropWhile isWhiteSpace (rev ?ys)"
  from assms have z: "?zs \<noteq> []" by (simp add: trim_def)
  then have y: "?ys \<noteq> []" by (cases "?ys = []") (simp_all only: rev.simps dropWhile.simps not_False_eq_True)
  have "last (trim s) = hd ?zs" using z by (simp add: trim_def last_rev)
  moreover have "\<not> isWhiteSpace (hd ?zs)" using z hd_dropWhile by blast
  moreover have "hd (trim s) = last ?zs" using z by (simp add: trim_def hd_rev)
  moreover have "last ?zs = last (rev ?ys)" using z by (rule last_dropWhile_nonempty)
  moreover have "last (rev ?ys) = hd ?ys" using y by (simp add: last_rev)
  moreover have "\<not> isWhiteSpace (hd ?ys)" using y hd_dropWhile by blast
  ultimately show ?thesis by simp
qed

lemma wsCollapsed_trim_collapseWs: "wsCollapsed (trim (collapseWs s))"
proof -
  have "\<forall>c \<in> set (trim (collapseWs s)). isWhiteSpace c \<longrightarrow> c = 32"
    using set_trim [of "collapseWs s"] collapseWs_only_space by blast
  then show ?thesis
    by (simp add: wsCollapsed_def list_all_iff noSpaceRun_trim noSpaceRun_collapseWs trim_ends)
qed

lemma set_replaceWordFrom: "set (replaceWordFrom phrase pw s) \<subseteq> insert 32 (set s)"
proof (induction phrase pw s rule: replaceWordFrom.induct)
  case (1 phrase prevWord)
  show ?case by simp
next
  case (2 phrase prevWord c cs)
  show ?case
  proof (cases "matchesAt phrase prevWord (c # cs)")
    case True
    have "set (drop (length phrase) (c # cs)) \<subseteq> set (c # cs)" by (rule set_drop_subset)
    with 2(1) [OF True] True show ?thesis by (simp only: replaceWordFrom.simps if_True) auto
  next
    case False
    with 2(2) [OF False] show ?thesis by (simp only: replaceWordFrom.simps if_False) auto
  qed
qed

lemma set_replaceWord: "set (replaceWord phrase s) \<subseteq> insert 32 (set s)"
  by (simp add: replaceWord_def set_replaceWordFrom)

lemma set_removeUniversal_aux:
  "set (foldl (\<lambda>cleaned phrase.
              let phraseWords = splitWs phrase in
              if length phraseWords = 1 \<and> hd phraseWords \<in> set protected then cleaned
              else replaceWord phrase cleaned) s ps) \<subseteq> insert 32 (set s)"
proof (induction ps arbitrary: s)
  case Nil
  show ?case by auto
next
  case (Cons p ps)
  show ?case using Cons [of "replaceWord p s"] Cons [of s] set_replaceWord [of p s]
    by (auto simp: Let_def)
qed

lemma set_removeUniversal: "set (removeUniversal protected s) \<subseteq> insert 32 (set s)"
  unfolding removeUniversal_def by (rule set_removeUniversal_aux)

lemma set_removeCategory: "set (removeCategory protected ws s) \<subseteq> insert 32 (set s)"
  unfolding removeCategory_def
proof (induction ws arbitrary: s)
  case Nil
  show ?case by auto
next
  case (Cons p ps)
  show ?case using Cons [of "replaceWord p s"] Cons [of s] set_replaceWord [of p s]
    by auto
qed

lemma lowerUnit_idem: "lowerUnit (lowerUnit c) = lowerUnit c"
  by (simp add: lowerUnit_def)

lemma lowerUnit_space: "lowerUnit 32 = 32"
  by (simp add: lowerUnit_def)

lemma isWhiteSpace_lowerUnit: "isWhiteSpace (lowerUnit c) = isWhiteSpace c"
  by (auto simp: lowerUnit_def isWhiteSpace_def)

lemma lowerUnit_eq_space: "lowerUnit c = 32 \<longleftrightarrow> c = 32"
  by (auto simp: lowerUnit_def)

lemma punctFull_lowerUnit: "punctFull (lowerUnit c) \<Longrightarrow> punctFull c"
  by (auto simp: lowerUnit_def punctFull_def split: if_splits)

lemma lowerUnit_not_304: "c \<noteq> 304 \<Longrightarrow> lowerUnit c \<noteq> 304"
  by (auto simp: lowerUnit_def split: if_splits)

lemma toLowerCase_Nil: "toLowerCase [] = []"
  by (simp add: toLowerCase_def)

lemma toLowerCase_Cons: "toLowerCase (c # s) = lowerUnits c @ toLowerCase s"
  by (simp add: toLowerCase_def)

lemma toLowerCase_eq_Nil: "toLowerCase s = [] \<longleftrightarrow> s = []"
  by (cases s) (simp_all add: toLowerCase_def lowerUnits_def)

lemma lowerUnits_304: "lowerUnits 304 = [105, 775]"
  by (simp add: lowerUnits_def)

lemma lowerUnits_other: "c \<noteq> 304 \<Longrightarrow> lowerUnits c = [lowerUnit c]"
  by (simp add: lowerUnits_def)

lemma lowerUnits_fixed: "d \<in> set (lowerUnits c) \<Longrightarrow> lowerUnits d = [d]"
proof (cases "c = 304")
  case True
  assume "d \<in> set (lowerUnits c)"
  with True have "d = 105 \<or> d = 775" by (simp add: lowerUnits_304)
  then show ?thesis by (auto simp: lowerUnits_def lowerUnit_def)
next
  case False
  assume "d \<in> set (lowerUnits c)"
  with False have d: "d = lowerUnit c" by (simp add: lowerUnits_other)
  with False have "d \<noteq> 304" by (simp add: lowerUnit_not_304)
  then show ?thesis using d by (simp add: lowerUnits_other lowerUnit_idem)
qed

lemma toLowerCase_fixed: "\<forall>c \<in> set x. lowerUnits c = [c] \<Longrightarrow> toLowerCase x = x"
  by (induction x) (simp_all add: toLowerCase_Nil toLowerCase_Cons)

lemma set_toLowerCase_fixed: "d \<in> set (toLowerCase s) \<Longrightarrow> lowerUnits d = [d]"
  by (auto simp: toLowerCase_def dest: lowerUnits_fixed)

lemma toLowerCase_idem: "toLowerCase (toLowerCase s) = toLowerCase s"
  by (rule toLowerCase_fixed) (simp add: set_toLowerCase_fixed)

lemma isWhiteSpace_lowerUnits:
  "d \<in> set (lowerUnits c) \<Longrightarrow> isWhiteSpace d = isWhiteSpace c"
proof (cases "c = 304")
  case True
  assume "d \<in> set (lowerUnits c)"
  with True have "d = 105 \<or> d = 775" by (simp add: lowerUnits_304)
  with True show ?thesis by (auto simp: isWhiteSpace_def)
next
  case False
  assume "d \<in> set (lowerUnits c)"
  with False show ?thesis by (simp add: lowerUnits_other isWhiteSpace_lowerUnit)
qed

lemma space_lowerUnits:
  "d \<in> set (lowerUnits c) \<Longrightarrow> c = 32 \<Longrightarrow> d = 32"
  by (simp add: lowerUnits_def lowerUnit_space)

lemma punctFull_lowerUnits: "d \<in> set (lowerUnits c) \<Longrightarrow> punctFull d \<Longrightarrow> punctFull c"
proof (cases "c = 304")
  case True
  assume "d \<in> set (lowerUnits c)" "punctFull d"
  with True show ?thesis by (auto simp: lowerUnits_304 punctFull_def)
next
  case False
  assume "d \<in> set (lowerUnits c)" "punctFull d"
  with False show ?thesis by (auto simp: lowerUnits_other dest: punctFull_lowerUnit)
qed

lemma lowerUnits_nonempty: "lowerUnits c \<noteq> []"
  by (simp add: lowerUnits_def)

lemma hd_lowerUnits: "isWhiteSpace (hd (lowerUnits c)) = isWhiteSpace c"
  by (rule isWhiteSpace_lowerUnits) (simp add: lowerUnits_nonempty)

lemma last_lowerUnits: "isWhiteSpace (last (lowerUnits c)) = isWhiteSpace c"
  by (rule isWhiteSpace_lowerUnits) (simp add: lowerUnits_nonempty)

lemma hd_toLowerCase: "s \<noteq> [] \<Longrightarrow> isWhiteSpace (hd (toLowerCase s)) = isWhiteSpace (hd s)"
  by (cases s) (simp_all add: toLowerCase_Cons lowerUnits_nonempty hd_lowerUnits)

lemma last_toLowerCase: "s \<noteq> [] \<Longrightarrow> isWhiteSpace (last (toLowerCase s)) = isWhiteSpace (last s)"
proof (induction s)
  case Nil
  then show ?case by simp
next
  case (Cons c s)
  show ?case
  proof (cases "s = []")
    case True
    then show ?thesis by (simp add: toLowerCase_Cons toLowerCase_Nil last_lowerUnits)
  next
    case False
    then have "toLowerCase s \<noteq> []" by (simp add: toLowerCase_eq_Nil)
    with Cons False show ?thesis by (simp add: toLowerCase_Cons)
  qed
qed

lemma noSpaceRun_toLowerCase: "noSpaceRun s \<Longrightarrow> noSpaceRun (toLowerCase s)"
proof (induction s)
  case Nil
  then show ?case by (simp add: toLowerCase_Nil)
next
  case (Cons c s)
  from Cons.prems have r: "noSpaceRun s" and b: "s = [] \<or> \<not> (isWhiteSpace c \<and> isWhiteSpace (hd s))"
    by (simp_all add: noSpaceRun_Cons)
  from r have t: "noSpaceRun (toLowerCase s)" by (rule Cons.IH)
  show ?case
  proof (cases "c = 304")
    case True
    then show ?thesis using t
      by (simp add: toLowerCase_Cons lowerUnits_304 noSpaceRun_Cons isWhiteSpace_def)
  next
    case False
    have "toLowerCase s = [] \<or> \<not> (isWhiteSpace (lowerUnit c) \<and> isWhiteSpace (hd (toLowerCase s)))"
      using b by (auto simp: toLowerCase_eq_Nil isWhiteSpace_lowerUnit hd_toLowerCase)
    with False t show ?thesis
      by (simp add: toLowerCase_Cons lowerUnits_other noSpaceRun_Cons)
  qed
qed

lemma wsCollapsed_toLowerCase: "wsCollapsed s \<Longrightarrow> wsCollapsed (toLowerCase s)"
proof -
  assume a: "wsCollapsed s"
  have "\<forall>d \<in> set (toLowerCase s). isWhiteSpace d \<longrightarrow> d = 32"
  proof (intro ballI impI)
    fix d
    assume d: "d \<in> set (toLowerCase s)" and w: "isWhiteSpace d"
    then obtain c where c: "c \<in> set s" "d \<in> set (lowerUnits c)"
      by (auto simp: toLowerCase_def)
    with w have "isWhiteSpace c" by (simp add: isWhiteSpace_lowerUnits)
    with a c have "c = 32" by (simp add: wsCollapsed_def list_all_iff)
    with c show "d = 32" by (simp add: space_lowerUnits)
  qed
  moreover have "toLowerCase s \<noteq> [] \<longrightarrow>
      \<not> isWhiteSpace (hd (toLowerCase s)) \<and> \<not> isWhiteSpace (last (toLowerCase s))"
    using a by (auto simp: wsCollapsed_def toLowerCase_eq_Nil hd_toLowerCase last_toLowerCase)
  moreover have "noSpaceRun (toLowerCase s)"
    using a by (simp add: wsCollapsed_def noSpaceRun_toLowerCase)
  ultimately show ?thesis by (simp add: wsCollapsed_def list_all_iff)
qed

lemma no_punct_replaceClass: "\<not> p 32 \<Longrightarrow> \<not> list_ex p (trim (collapseWs (replaceClass p s)))"
proof -
  assume sp: "\<not> p 32"
  have "set (trim (collapseWs (replaceClass p s))) \<subseteq> insert 32 (set (replaceClass p s))"
    using set_trim [of "collapseWs (replaceClass p s)"] set_collapseWs [of "replaceClass p s"]
    by blast
  moreover have "\<forall>c \<in> set (replaceClass p s). \<not> p c"
    using sp by (auto simp: replaceClass_def)
  ultimately show ?thesis using sp by (auto simp: list_ex_iff)
qed

lemma punctFull_space: "\<not> punctFull 32"
  by (simp add: punctFull_def)

lemma punctShort_space: "\<not> punctShort 32"
  by (simp add: punctShort_def)

lemma softClean_normal:
  "toLowerCase (softClean title) = softClean title \<and> \<not> list_ex punctFull (softClean title) \<and>
   wsCollapsed (softClean title)"
proof -
  let ?x = "trim (collapseWs (replaceClass punctFull title))"
  have "\<not> list_ex punctFull ?x" by (rule no_punct_replaceClass [of punctFull, OF punctFull_space])
  then have "\<not> list_ex punctFull (toLowerCase ?x)"
    by (auto simp: list_ex_iff toLowerCase_def dest: punctFull_lowerUnits)
  moreover have "wsCollapsed (toLowerCase ?x)"
    by (rule wsCollapsed_toLowerCase [OF wsCollapsed_trim_collapseWs])
  moreover have "toLowerCase (toLowerCase ?x) = toLowerCase ?x"
    by (rule toLowerCase_idem)
  ultimately show ?thesis by (simp add: softClean_def)
qed

lemma hardClean_normal:
  assumes "set y \<subseteq> insert 32 (set (toLowerCase title))"
  shows "toLowerCase (trim (collapseWs (replaceClass punctFull y))) = trim (collapseWs (replaceClass punctFull y)) \<and>
     \<not> list_ex punctFull (trim (collapseWs (replaceClass punctFull y))) \<and>
     wsCollapsed (trim (collapseWs (replaceClass punctFull y)))"
proof -
  let ?x = "trim (collapseWs (replaceClass punctFull y))"
  have "set ?x \<subseteq> insert 32 (set (replaceClass punctFull y))"
    using set_trim [of "collapseWs (replaceClass punctFull y)"]
      set_collapseWs [of "replaceClass punctFull y"] by blast
  also have "\<dots> \<subseteq> insert 32 (set y)" by (auto simp: replaceClass_def)
  also have "\<dots> \<subseteq> insert 32 (set (toLowerCase title))" using assms by blast
  finally have sub: "set ?x \<subseteq> insert 32 (set (toLowerCase title))" .
  have "lowerUnits 32 = [32]" by (simp add: lowerUnits_def lowerUnit_def)
  with sub have "\<forall>c \<in> set ?x. lowerUnits c = [c]"
    using set_toLowerCase_fixed [of _ title] by blast
  then have "toLowerCase ?x = ?x" by (rule toLowerCase_fixed)
  then show ?thesis
    using no_punct_replaceClass [of punctFull y, OF punctFull_space] wsCollapsed_trim_collapseWs by simp
qed

text \<open>
  C4, as the code has it. Let \<open>cleanSearchQuery\<close> return \<open>q\<close>. For a title of more than two
  words, \<open>q\<close> is lower-cased, has none of the characters
  \<open>, ( ) [ ] : ; ! ? ' " & -\<close>, en dash, em dash, trade mark, registered, copyright, and its
  white space is collapsed; the only exception is the last fallback, which returns the
  raw title when even the punctuation-only cleaning leaves fewer than two code units.
  For a title of one or two words the code only replaces \<open>, ( ) [ ] : ; ! ? ' "\<close>, trade
  mark, registered and copyright by spaces, collapses the white space and trims: \<open>q\<close> is
  that string when it has at least two code units and the raw title otherwise; its case
  is kept.
\<close>

theorem cleanSearchQuery_normalised:
  assumes "cleanSearchQuery title cat = Inr q"
  shows "(2 < length (splitWs (trim title)) \<longrightarrow>
            (toLowerCase q = q \<and> \<not> list_ex punctFull q \<and> wsCollapsed q) \<or>
            (length (softClean title) < 2 \<and> q = title)) \<and>
         (length (splitWs (trim title)) \<le> 2 \<longrightarrow>
            (if 2 \<le> length (trim (collapseWs (replaceClass punctShort title)))
             then q = trim (collapseWs (replaceClass punctShort title)) \<and>
                  \<not> list_ex punctShort q \<and> wsCollapsed q
             else q = title))"
proof (cases "length (splitWs (trim title)) \<le> 2")
  case True
  with assms show ?thesis
    using no_punct_replaceClass [of punctShort title, OF punctShort_space] wsCollapsed_trim_collapseWs
    by (auto simp: cleanSearchQuery_def Let_def)
next
  case False
  define prot where "prot = protectedWords (splitWs (trim title))"
  define u where "u = removeUniversal prot (toLowerCase title)"
  define y where "y = (case CATEGORY_FILLER cat of Fillers ws \<Rightarrow> removeCategory prot ws u | _ \<Rightarrow> u)"
  define x where "x = trim (collapseWs (replaceClass punctFull y))"
  have su: "set u \<subseteq> insert 32 (set (toLowerCase title))"
    unfolding u_def by (rule set_removeUniversal)
  have "set y \<subseteq> insert 32 (set u)"
    unfolding y_def using set_removeCategory by (auto split: fillerLookup.splits)
  with su have sy: "set y \<subseteq> insert 32 (set (toLowerCase title))" by blast
  have nx: "toLowerCase x = x \<and> \<not> list_ex punctFull x \<and> wsCollapsed x"
    unfolding x_def by (rule hardClean_normal [OF sy])
  have q: "q = (let cleaned = (if length (filter (\<lambda>w. 2 \<le> length w) (splitWs x)) < 2 \<or> length x < 3
                               then softClean title else x)
                in if 2 \<le> length cleaned then cleaned else title)"
    using assms False
    by (auto simp: cleanSearchQuery_def Let_def prot_def u_def y_def x_def split: fillerLookup.splits)
  show ?thesis using False q nx softClean_normal [of title]
    by (auto simp: Let_def split: if_splits)
qed


lemmas replace_defs = replaceWord_def matchesAt_def wordBoundary_def canonicalize_def

theorem cleanSearchQuery_normalised_witness:
  "cleanSearchQuery (js ''Super VPN Proxy Free'') (js ''Tools'') = Inr (js ''super vpn proxy'') \<and>
   2 < length (splitWs (trim (js ''Super VPN Proxy Free''))) \<and>
   toLowerCase (js ''super vpn proxy'') = js ''super vpn proxy'' \<and>
   \<not> list_ex punctFull (js ''super vpn proxy'') \<and> wsCollapsed (js ''super vpn proxy'') \<and>
   cleanSearchQuery (js ''Maps: Navigation'') (js ''Tools'') = Inr (js ''Maps Navigation'') \<and>
   length (splitWs (trim (js ''Maps: Navigation''))) \<le> 2 \<and>
   \<not> list_ex punctShort (js ''Maps Navigation'') \<and> wsCollapsed (js ''Maps Navigation'')"
proof -
  have w: "splitWs (trim (js ''Super VPN Proxy Free'')) =
           [js ''Super'', js ''VPN'', js ''Proxy'', js ''Free'']"
    by (simp add: string_defs)
  have p: "protectedWords [js ''Super'', js ''VPN'', js ''Proxy'', js ''Free''] =
           [js ''super'', js ''vpn'']"
    by (simp add: string_defs protectedWords_def isBrandToken_def enumerate_eq_zip upt_rec)
  have l: "toLowerCase (js ''Super VPN Proxy Free'') = js ''super vpn proxy free''"
    by (simp add: string_defs)
  have u: "removeUniversal [js ''super'', js ''vpn''] (js ''super vpn proxy free'') =
           js ''super vpn proxy  ''"
    by (simp add: string_defs removeUniversal_def UNIVERSAL_FILLER_def replace_defs)
  have c: "CATEGORY_FILLER (js ''Tools'') =
           Fillers [js ''tool'', js ''tools'', js ''utility'', js ''utilities'', js ''helper'']"
    by (simp add: CATEGORY_FILLER_def CATEGORY_FILLER_entries_def js_def)
  have y: "removeCategory [js ''super'', js ''vpn'']
             [js ''tool'', js ''tools'', js ''utility'', js ''utilities'', js ''helper'']
             (js ''super vpn proxy  '') = js ''super vpn proxy  ''"
    by (simp add: string_defs removeCategory_def replace_defs)
  have x: "trim (collapseWs (replaceClass punctFull (js ''super vpn proxy  ''))) =
           js ''super vpn proxy''"
    by (simp add: string_defs)
  have r: "filter (\<lambda>w. 2 \<le> length w) (splitWs (js ''super vpn proxy'')) =
           [js ''super'', js ''vpn'', js ''proxy'']"
    by (simp add: string_defs)
  have n: "length (js ''super vpn proxy'') = 15"
    "length [js ''super'', js ''vpn'', js ''proxy''] = 3"
    "length [js ''Super'', js ''VPN'', js ''Proxy'', js ''Free''] = 4"
    by (simp_all add: js_def)
  have e: "cleanSearchQuery (js ''Super VPN Proxy Free'') (js ''Tools'') =
           Inr (js ''super vpn proxy'')"
    unfolding cleanSearchQuery_def Let_def w p l u c
    by (simp add: y x r n)
  have s: "\<not> length (softClean (js ''Super VPN Proxy Free'')) < 2"
    by (simp add: string_defs softClean_def)
  have long: "toLowerCase (js ''super vpn proxy'') = js ''super vpn proxy'' \<and>
   \<not> list_ex punctFull (js ''super vpn proxy'') \<and> wsCollapsed (js ''super vpn proxy'')"
    using cleanSearchQuery_normalised [OF e] w s by simp
  have e2: "cleanSearchQuery (js ''Maps: Navigation'') (js ''Tools'') = Inr (js ''Maps Navigation'')"
    by (simp add: string_defs cleanSearchQuery_def)
  have w2: "length (splitWs (trim (js ''Maps: Navigation''))) \<le> 2"
    by (simp add: string_defs)
  have x2: "trim (collapseWs (replaceClass punctShort (js ''Maps: Navigation''))) = js ''Maps Navigation''"
    by (simp add: string_defs)
  have n2: "length (js ''Maps Navigation'') = 15" by (simp add: js_def)
  have short: "\<not> list_ex punctShort (js ''Maps Navigation'') \<and> wsCollapsed (js ''Maps Navigation'')"
    using cleanSearchQuery_normalised [OF e2] w2 by (simp add: x2 n2)
  from e w long e2 w2 short show ?thesis by simp
qed

theorem cleanSearchQuery_normalised_counterexample:
  "cleanSearchQuery (js ''AT&T TV'') (js ''Entertainment'') = Inr (js ''AT&T TV'') \<and>
   toLowerCase (js ''AT&T TV'') \<noteq> js ''AT&T TV'' \<and> list_ex punctFull (js ''AT&T TV'')"
  by (simp add: string_defs cleanSearchQuery_def)

section \<open>The title WhatsApp Messenger\<close>

text \<open>
  C5, as the code has it. \<open>classifyTitle\<close> does not consult the category table, so
  \<open>Messenger\<close> is a meaningful other word and the title \<open>WhatsApp Messenger\<close> is
  \<open>mixed\<close>, with the brand word \<open>WhatsApp\<close>. The title has two words, so
  \<open>cleanSearchQuery\<close> takes the short path, which strips no filler and keeps the case:
  the query is \<open>WhatsApp Messenger\<close>. A \<open>mixed\<close> title is not translated: whatever the
  translator would return, the report of \<open>checkRuStore\<close> carries this query.
\<close>

theorem whatsapp_messenger:
  "classifyTitle (js ''WhatsApp Messenger'') =
     \<lparr>type = mixed, brandWords = [js ''WhatsApp''], otherWords = [js ''Messenger'']\<rparr> \<and>
   cleanSearchQuery (js ''WhatsApp Messenger'') (js ''Communication'') =
     Inr (js ''WhatsApp Messenger'') \<and>
   map_sum id searchQuery
     (checkRuStore translateToRussian (\<lambda>u. NoCards) (js ''WhatsApp Messenger'')
        (js ''Communication'') gp inst) = Inr (js ''WhatsApp Messenger'')"
proof -
  have t: "classifyTitle (js ''WhatsApp Messenger'') =
     \<lparr>type = mixed, brandWords = [js ''WhatsApp''], otherWords = [js ''Messenger'']\<rparr>"
    by (simp add: string_defs classifyTitle_def classifyWord_def isBrandToken_def
        UNIVERSAL_FILLER_def)
  have c: "cleanSearchQuery (js ''WhatsApp Messenger'') (js ''Communication'') =
     Inr (js ''WhatsApp Messenger'')"
    by (simp add: string_defs cleanSearchQuery_def)
  have e: "encodeURIComponent (js ''WhatsApp Messenger'') = Inr (js ''WhatsApp%20Messenger'')"
    by (simp add: js_def uriUnescaped_def isUpperAZ_def isLowerAZ_def isDigit_def prepend_def
        isLeadSurrogate_def isTrailSurrogate_def escapeCodePoint_def utf8_def percentByte_def
        hexDigit_def)
  have "map_sum id searchQuery
     (checkRuStore translateToRussian (\<lambda>u. NoCards) (js ''WhatsApp Messenger'')
        (js ''Communication'') gp inst) = Inr (js ''WhatsApp Messenger'')"
    by (simp add: checkRuStore_def Let_def t c e)
  with t c show ?thesis by simp
qed

theorem whatsapp_messenger_counterexample:
  "\<not> (type (classifyTitle (js ''WhatsApp Messenger'')) = brand \<and>
      cleanSearchQuery (js ''WhatsApp Messenger'') (js ''Communication'') = Inr (js ''whatsapp''))"
  by (simp add: string_defs classifyTitle_def classifyWord_def isBrandToken_def
      UNIVERSAL_FILLER_def)

section \<open>Rounding to a double\<close>

text \<open>
  \<open>roundDouble\<close> is odd and monotone, fixes the integers below \<open>2^53\<close>, and moves a
  number by at most the fraction \<open>2^-53\<close> of its size. On a concrete number it is
  evaluated from the power of two below it.
\<close>

lemma roundHalfEven_cases:
  "roundHalfEven m = \<lfloor>m\<rfloor> \<or> roundHalfEven m = \<lfloor>m\<rfloor> + 1"
  by (simp add: roundHalfEven_def Let_def)


lemma roundHalfEven_of_int: "roundHalfEven (of_int n) = n"
  by (simp add: roundHalfEven_def)

lemma roundHalfEven_mono: "m \<le> m' \<Longrightarrow> roundHalfEven m \<le> roundHalfEven m'"
proof -
  assume le: "m \<le> m'"
  then have fl: "\<lfloor>m\<rfloor> \<le> \<lfloor>m'\<rfloor>" by (rule floor_mono)
  show ?thesis
  proof (cases "\<lfloor>m\<rfloor> = \<lfloor>m'\<rfloor>")
    case True
    with le show ?thesis
      by (auto simp: roundHalfEven_def Let_def)
  next
    case False
    with fl have "\<lfloor>m\<rfloor> + 1 \<le> \<lfloor>m'\<rfloor>" by simp
    moreover have "roundHalfEven m \<le> \<lfloor>m\<rfloor> + 1" using roundHalfEven_cases [of m] by auto
    moreover have "\<lfloor>m'\<rfloor> \<le> roundHalfEven m'" using roundHalfEven_cases [of m'] by auto
    ultimately show ?thesis by linarith
  qed
qed

lemma roundHalfEven_minus: "roundHalfEven (- m) = - roundHalfEven m"
proof (cases "m \<in> \<int>")
  case True
  then obtain n where "m = of_int n" by (auto elim: Ints_cases)
  then show ?thesis
    using roundHalfEven_of_int [of n] roundHalfEven_of_int [of "- n"] by simp
next
  case False
  then have "m \<noteq> of_int \<lfloor>m\<rfloor>" by (metis Ints_of_int)
  then have f: "\<lfloor>- m\<rfloor> = - \<lfloor>m\<rfloor> - 1"
    by (simp add: floor_minus ceiling_altdef)
  have r: "- m - of_int (- \<lfloor>m\<rfloor> - 1) = 1 - (m - of_int \<lfloor>m\<rfloor>)" by simp
  show ?thesis
    unfolding roundHalfEven_def Let_def f r
    by (auto simp: algebra_simps)
qed



lemma pow2_shift: "(2::real) ^ n * 2 powr (a - real n) = 2 powr a"
  by (simp add: powr_realpow [symmetric] powr_add [symmetric])

lemma pow2_shift_up: "(2::real) ^ Suc n * 2 powr (a - real n) = 2 powr (a + 1)"
proof -
  have "(2::real) ^ Suc n * 2 powr (a - real n) = 2 powr 1 * (2 ^ n * 2 powr (a - real n))" by simp
  also have "\<dots> = 2 powr 1 * 2 powr a" by (simp only: pow2_shift)
  also have "\<dots> = 2 powr (a + 1)" by (simp add: powr_add)
  finally show ?thesis .
qed

lemma binade:
  assumes "x \<noteq> 0"
  shows "2 powr of_int \<lfloor>log 2 \<bar>x\<bar>\<rfloor> \<le> \<bar>x\<bar> \<and> \<bar>x\<bar> < 2 powr of_int (\<lfloor>log 2 \<bar>x\<bar>\<rfloor> + 1)"
proof -
  from assms have p: "0 < \<bar>x\<bar>" by simp
  have "\<lfloor>log 2 \<bar>x\<bar>\<rfloor> = \<lfloor>log 2 \<bar>x\<bar>\<rfloor>" by simp
  then show ?thesis
    using floor_log_eq_powr_iff [OF p, of 2 "\<lfloor>log 2 \<bar>x\<bar>\<rfloor>"] by simp
qed

lemma exponent_unique:
  assumes "2 powr of_int e \<le> \<bar>x\<bar>" and "\<bar>x\<bar> < 2 powr of_int (e + 1)"
  shows "ulpExponent x = e - 52"
proof -
  have "0 < (2::real) powr of_int e" by simp
  with assms(1) have p: "0 < \<bar>x\<bar>" by linarith
  from floor_log_eq_powr_iff [OF p, of 2 e] assms have "\<lfloor>log 2 \<bar>x\<bar>\<rfloor> = e" by simp
  then show ?thesis by (simp add: ulpExponent_def)
qed

lemma roundDouble_eval:
  assumes "2 powr of_int e \<le> \<bar>x\<bar>" and "\<bar>x\<bar> < 2 powr of_int (e + 1)"
  shows "roundDouble x =
         of_int (roundHalfEven (x / 2 powr of_int (e - 52))) * 2 powr of_int (e - 52)"
proof -
  have "0 < (2::real) powr of_int e" by simp
  with assms(1) have "x \<noteq> 0" by auto
  then show ?thesis by (simp add: roundDouble_def exponent_unique [OF assms])
qed

lemma mantissa_range:
  assumes "0 < x"
  shows "2 ^ 52 \<le> x / 2 powr of_int (ulpExponent x) \<and> x / 2 powr of_int (ulpExponent x) < 2 ^ 53"
proof -
  let ?e = "\<lfloor>log 2 \<bar>x\<bar>\<rfloor>"
  from assms binade [of x] have b: "2 powr of_int ?e \<le> x" "x < 2 powr of_int (?e + 1)" by simp_all
  have u: "x / 2 powr of_int (ulpExponent x) = x * 2 powr of_int (52 - ?e)"
    by (simp add: ulpExponent_def powr_diff field_simps)
  have "2 powr of_int ?e * 2 powr of_int (52 - ?e) = (2::real) powr 52"
    by (simp add: powr_add [symmetric])
  moreover have "2 powr of_int (?e + 1) * 2 powr of_int (52 - ?e) = (2::real) powr 53"
    by (simp add: powr_add [symmetric])
  moreover have "0 < (2::real) powr of_int (52 - ?e)" by simp
  ultimately have "2 powr 52 \<le> x * 2 powr of_int (52 - ?e)" "x * 2 powr of_int (52 - ?e) < 2 powr 53"
    using b by (metis mult_le_cancel_right_pos, metis mult_less_cancel_right_pos)
  then show ?thesis unfolding u by simp
qed

lemma roundDouble_minus: "roundDouble (- x) = - roundDouble x"
  by (simp add: roundDouble_def ulpExponent_def roundHalfEven_minus)

lemma roundDouble_zero: "roundDouble 0 = 0"
  by (simp add: roundDouble_def)

lemma roundDouble_pos_bounds:
  assumes "0 < x"
  shows "2 powr of_int \<lfloor>log 2 \<bar>x\<bar>\<rfloor> \<le> roundDouble x \<and>
         roundDouble x \<le> 2 powr of_int (\<lfloor>log 2 \<bar>x\<bar>\<rfloor> + 1)"
proof -
  let ?u = "(2::real) powr of_int (ulpExponent x)"
  let ?m = "x / ?u"
  from mantissa_range [OF assms] have m: "of_int (2 ^ 52) \<le> ?m" "?m \<le> of_int (2 ^ 53)" by simp_all
  from roundHalfEven_mono [OF m(1)] roundHalfEven_mono [OF m(2)]
  have "2 ^ 52 \<le> roundHalfEven ?m" "roundHalfEven ?m \<le> 2 ^ 53"
    by (simp_all only: roundHalfEven_of_int)
  then have r: "(2::real) ^ 52 \<le> of_int (roundHalfEven ?m)" "of_int (roundHalfEven ?m) \<le> (2::real) ^ 53"
    by (metis of_int_le_iff of_int_numeral of_int_power)+
  have u: "0 < ?u" by simp
  have a: "2 ^ 52 * ?u = 2 powr of_int \<lfloor>log 2 \<bar>x\<bar>\<rfloor>"
    using pow2_shift [of 52 "of_int \<lfloor>log 2 \<bar>x\<bar>\<rfloor>"] by (simp add: ulpExponent_def)
  have b: "2 ^ 53 * ?u = 2 powr of_int (\<lfloor>log 2 \<bar>x\<bar>\<rfloor> + 1)"
    using pow2_shift_up [of 52 "of_int \<lfloor>log 2 \<bar>x\<bar>\<rfloor>"] by (simp add: ulpExponent_def)
  from r u have "2 ^ 52 * ?u \<le> of_int (roundHalfEven ?m) * ?u" "of_int (roundHalfEven ?m) * ?u \<le> 2 ^ 53 * ?u"
    by simp_all
  with assms show ?thesis unfolding a b by (simp add: roundDouble_def)
qed

lemma roundDouble_nonneg: "0 \<le> x \<Longrightarrow> 0 \<le> roundDouble x"
proof (cases "x = 0")
  case True
  then show ?thesis by (simp add: roundDouble_zero)
next
  case False
  assume "0 \<le> x"
  with False have p: "0 < x" by simp
  have "0 < (2::real) powr of_int \<lfloor>log 2 \<bar>x\<bar>\<rfloor>" by simp
  with roundDouble_pos_bounds [OF p] show ?thesis by linarith
qed

lemma roundDouble_mono_pos:
  assumes "0 < x" and "x \<le> y"
  shows "roundDouble x \<le> roundDouble y"
proof -
  from assms have py: "0 < y" by simp
  let ?ex = "\<lfloor>log 2 \<bar>x\<bar>\<rfloor>" and ?ey = "\<lfloor>log 2 \<bar>y\<bar>\<rfloor>"
  from assms py have "log 2 \<bar>x\<bar> \<le> log 2 \<bar>y\<bar>" by simp
  then have ee: "?ex \<le> ?ey" by (rule floor_mono)
  show ?thesis
  proof (cases "?ex = ?ey")
    case True
    then have u: "ulpExponent x = ulpExponent y" by (simp add: ulpExponent_def)
    have "0 < (2::real) powr of_int (ulpExponent y)" by simp
    with assms(2) have "x / 2 powr of_int (ulpExponent y) \<le> y / 2 powr of_int (ulpExponent y)"
      by (simp add: divide_right_mono)
    from roundHalfEven_mono [OF this]
    have "real_of_int (roundHalfEven (x / 2 powr of_int (ulpExponent y))) * 2 powr of_int (ulpExponent y)
          \<le> real_of_int (roundHalfEven (y / 2 powr of_int (ulpExponent y))) * 2 powr of_int (ulpExponent y)"
      by (simp add: mult_right_mono)
    with assms(1) py show ?thesis by (simp add: roundDouble_def u)
  next
    case False
    with ee have "?ex + 1 \<le> ?ey" by simp
    then have "(2::real) powr of_int (?ex + 1) \<le> 2 powr of_int ?ey" by simp
    with roundDouble_pos_bounds [OF assms(1)] roundDouble_pos_bounds [OF py]
    show ?thesis by linarith
  qed
qed

lemma roundDouble_mono: "x \<le> y \<Longrightarrow> roundDouble x \<le> roundDouble y"
proof -
  assume le: "x \<le> y"
  consider "0 < x" | "x \<le> 0" "0 \<le> y" | "y < 0" by linarith
  then show ?thesis
  proof cases
    case 1
    then show ?thesis using le by (rule roundDouble_mono_pos)
  next
    case 2
    from 2(1) have "0 \<le> roundDouble (- x)" by (intro roundDouble_nonneg) simp
    then have "roundDouble x \<le> 0" by (simp add: roundDouble_minus)
    with roundDouble_nonneg [OF 2(2)] show ?thesis by linarith
  next
    case 3
    with le have "0 < - y" "- y \<le> - x" by simp_all
    from roundDouble_mono_pos [OF this] show ?thesis by (simp add: roundDouble_minus)
  qed
qed



lemma roundDouble_representable:
  assumes "x / 2 powr of_int (ulpExponent x) = of_int k"
  shows "roundDouble x = x"
proof (cases "x = 0")
  case True
  then show ?thesis by (simp add: roundDouble_zero)
next
  case False
  have "0 < (2::real) powr of_int (ulpExponent x)" by simp
  then have "x = of_int k * 2 powr of_int (ulpExponent x)"
    using assms by (simp add: field_simps)
  with False show ?thesis
    by (simp add: roundDouble_def assms roundHalfEven_of_int)
qed

lemma roundDouble_of_int:
  assumes "\<bar>n\<bar> < 2 ^ 53"
  shows "roundDouble (of_int n) = of_int n"
proof (cases "n = 0")
  case True
  then show ?thesis by (simp add: roundDouble_zero)
next
  case False
  let ?x = "real_of_int n"
  let ?e = "\<lfloor>log 2 \<bar>?x\<bar>\<rfloor>"
  from False have nz: "?x \<noteq> 0" by simp
  from assms have "\<bar>?x\<bar> < 2 ^ 53"
    by (metis of_int_abs of_int_less_iff of_int_numeral of_int_power)
  then have "\<bar>?x\<bar> < 2 powr 53" by simp
  moreover from nz have "0 < \<bar>?x\<bar>" by simp
  ultimately have "log 2 \<bar>?x\<bar> < 53" by (subst log_less_iff) simp_all
  then have "?e < 53" by (simp add: floor_less_iff)
  then have e: "?e \<le> 52" by simp
  define d where "d = nat (52 - ?e)"
  from e have d: "of_int (ulpExponent ?x) = - real d"
    by (simp add: ulpExponent_def d_def)
  have "?x / 2 powr of_int (ulpExponent ?x) = ?x * 2 ^ d"
    unfolding d by (simp add: powr_minus powr_realpow field_simps)
  also have "\<dots> = of_int (n * 2 ^ d)" by simp
  finally show ?thesis by (rule roundDouble_representable)
qed

lemma roundDouble_one: "roundDouble 1 = 1"
  using roundDouble_of_int [of 1] by simp

lemma roundDouble_numeral:
  "numeral k < (2::int) ^ 53 \<Longrightarrow> roundDouble (numeral k) = numeral k"
  using roundDouble_of_int [of "numeral k"] by simp

lemma dadd_mono: "x \<le> x' \<Longrightarrow> y \<le> y' \<Longrightarrow> dadd x y \<le> dadd x' y'"
  unfolding dadd_def by (rule roundDouble_mono) simp

lemma dsub_mono: "x \<le> x' \<Longrightarrow> y' \<le> y \<Longrightarrow> dsub x y \<le> dsub x' y'"
  unfolding dsub_def by (rule roundDouble_mono) simp

lemma dmul_mono: "0 \<le> k \<Longrightarrow> x \<le> x' \<Longrightarrow> dmul k x \<le> dmul k x'"
  unfolding dmul_def by (rule roundDouble_mono) (simp add: mult_left_mono)

lemma ddiv_mono: "0 < k \<Longrightarrow> x \<le> x' \<Longrightarrow> ddiv x k \<le> ddiv x' k"
  unfolding ddiv_def by (rule roundDouble_mono) (simp add: divide_right_mono)

lemma mathLog10_mono: "0 < x \<Longrightarrow> x \<le> y \<Longrightarrow> mathLog10 x \<le> mathLog10 y"
  unfolding mathLog10_def by (rule roundDouble_mono) simp

lemma mathLog10_nonneg: "1 \<le> x \<Longrightarrow> 0 \<le> mathLog10 x"
  unfolding mathLog10_def by (rule roundDouble_nonneg) simp

lemma roundDouble_evalI:
  "2 powr of_int e \<le> \<bar>x\<bar> \<Longrightarrow> \<bar>x\<bar> < 2 powr of_int (e + 1) \<Longrightarrow>
   of_int (roundHalfEven (x / 2 powr of_int (e - 52))) * 2 powr of_int (e - 52) = y \<Longrightarrow>
   roundDouble x = y"
  using roundDouble_eval [of e x] by simp

lemmas double_eval = powr_minus roundHalfEven_def Let_def

lemma double_3_10: "roundDouble (3 / 10) = 5404319552844595 / 18014398509481984"
  by (rule roundDouble_evalI [where e = "- 2"]) (simp_all add: double_eval)

lemma double_7_10: "roundDouble (7 / 10) = 3152519739159347 / 4503599627370496"
  by (rule roundDouble_evalI [where e = "- 1"]) (simp_all add: double_eval)

lemma double_1_10: "roundDouble (1 / 10) = 3602879701896397 / 36028797018963968"
  by (rule roundDouble_evalI [where e = "- 4"]) (simp_all add: double_eval)

lemma mathRound_eq: "real_of_int z - 1 / 2 \<le> x \<Longrightarrow> x < real_of_int z + 1 / 2 \<Longrightarrow> mathRound x = z"
  unfolding mathRound_def by (rule floor_unique) simp_all

section \<open>Parsing the installs string\<close>

lemma numChar_not_space: "isNumChar c \<Longrightarrow> \<not> isWhiteSpace c"
  by (auto simp: isNumChar_def isDigit_def isWhiteSpace_def)

lemma takeWhile_all_then:
  "list_all P xs \<Longrightarrow> (ys = [] \<or> \<not> P (hd ys)) \<Longrightarrow> takeWhile P (xs @ ys) = xs \<and> dropWhile P (xs @ ys) = ys"
  by (cases ys) (auto simp: list_all_iff takeWhile_append2 dropWhile_append2)

lemma matchInstalls_iff:
  "matchInstalls str = Some (num, suffix) \<longleftrightarrow> spec_installs_match str num suffix"
proof
  assume m: "matchInstalls str = Some (num, suffix)"
  let ?rest = "dropWhile isNumChar str"
  from m have n: "num = takeWhile isNumChar str" and s: "suffix = dropWhile isWhiteSpace ?rest"
    and ne: "num \<noteq> []" and su: "suffix \<in> {[], [75], [77], [66], [84]}"
    by (auto simp: matchInstalls_def Let_def split: if_splits)
  have "str = num @ takeWhile isWhiteSpace ?rest @ suffix"
    unfolding n s by simp
  moreover have "list_all isNumChar num" unfolding n by (simp add: list_all_iff) (meson set_takeWhileD)
  moreover have "list_all isWhiteSpace (takeWhile isWhiteSpace ?rest)"
    by (simp add: list_all_iff) (meson set_takeWhileD)
  ultimately show "spec_installs_match str num suffix"
    unfolding spec_installs_match_def using ne su by blast
next
  assume "spec_installs_match str num suffix"
  then obtain ws where str: "str = num @ ws @ suffix" and ne: "num \<noteq> []"
    and an: "list_all isNumChar num" and aw: "list_all isWhiteSpace ws"
    and su: "suffix \<in> {[], [75], [77], [66], [84]}"
    unfolding spec_installs_match_def by blast
  have sfx: "suffix = [] \<or> (\<not> isWhiteSpace (hd suffix) \<and> \<not> isNumChar (hd suffix))"
    using su by (auto simp: isWhiteSpace_def isNumChar_def isDigit_def)
  have "ws @ suffix = [] \<or> \<not> isNumChar (hd (ws @ suffix))"
    using aw sfx by (cases ws) (auto dest: numChar_not_space)
  from takeWhile_all_then [OF an this]
  have t: "takeWhile isNumChar str = num" and d: "dropWhile isNumChar str = ws @ suffix"
    unfolding str by simp_all
  from sfx have "suffix = [] \<or> \<not> isWhiteSpace (hd suffix)" by blast
  from takeWhile_all_then [OF aw this]
  have "dropWhile isWhiteSpace (ws @ suffix) = suffix" by simp
  with t d ne su show "matchInstalls str = Some (num, suffix)"
    by (simp add: matchInstalls_def Let_def)
qed

text \<open>
  C8. With \<open>str\<close> the input without \<open>+\<close> and \<open>,\<close>, trimmed and upper-cased:
  when the input is neither empty nor \<open>N/A\<close> and \<open>str\<close> matches the pattern with numeric
  part \<open>num\<close> and suffix \<open>suffix\<close>, the result is \<open>parseFloat num\<close> times the
  multiplier of the suffix (1, 1e3, 1e6, 1e9, 1e12 for none, K, M, B, T); the empty
  string, \<open>N/A\<close> and every input whose \<open>str\<close> does not match give 0; and \<open>1,234K+\<close>
  gives 1234000.
\<close>

theorem parseInstalls_pattern:
  "(s \<noteq> [] \<and> s \<noteq> js ''N/A'' \<and>
    spec_installs_match (toUpperCase (trim (filter (\<lambda>c. c \<noteq> 43 \<and> c \<noteq> 44) s))) num suffix \<longrightarrow>
      parseInstalls s = mulNum (parseFloat num) (multipliers suffix)) \<and>
   (s = [] \<or> s = js ''N/A'' \<or>
    \<not> (\<exists>n x. spec_installs_match (toUpperCase (trim (filter (\<lambda>c. c \<noteq> 43 \<and> c \<noteq> 44) s))) n x) \<longrightarrow>
      parseInstalls s = Num 0) \<and>
   multipliers [] = 1 \<and> multipliers (js ''K'') = 1000 \<and> multipliers (js ''M'') = 1000000 \<and>
   multipliers (js ''B'') = 1000000000 \<and> multipliers (js ''T'') = 1000000000000 \<and>
   parseInstalls (js ''1,234K+'') = Num 1234000 \<and>
   parseInstalls (js ''N/A'') = Num 0 \<and> parseInstalls [] = Num 0"
proof -
  let ?str = "toUpperCase (trim (filter (\<lambda>c. c \<noteq> 43 \<and> c \<noteq> 44) s))"
  have a: "s \<noteq> [] \<and> s \<noteq> js ''N/A'' \<and> spec_installs_match ?str num suffix \<longrightarrow>
      parseInstalls s = mulNum (parseFloat num) (multipliers suffix)"
    by (simp add: parseInstalls_def Let_def matchInstalls_iff [symmetric])
  have b: "s = [] \<or> s = js ''N/A'' \<or> \<not> (\<exists>n x. spec_installs_match ?str n x) \<longrightarrow>
      parseInstalls s = Num 0"
    by (cases "matchInstalls ?str")
       (auto simp: parseInstalls_def Let_def matchInstalls_iff [symmetric])
  have m: "multipliers [] = 1 \<and> multipliers (js ''K'') = 1000 \<and> multipliers (js ''M'') = 1000000 \<and>
   multipliers (js ''B'') = 1000000000 \<and> multipliers (js ''T'') = 1000000000000"
    by (simp add: multipliers_def js_def)
  have e: "parseInstalls (js ''1,234K+'') = Num 1234000"
    by (simp add: parseInstalls_def matchInstalls_def parseFloat_def digitsValue_def mulNum_def
        multipliers_def isNumChar_def string_defs dmul_def roundDouble_numeral)
  have z: "parseInstalls (js ''N/A'') = Num 0 \<and> parseInstalls [] = Num 0"
    by (simp add: parseInstalls_def)
  from a b m e z show ?thesis by blast
qed

theorem parseInstalls_pattern_witness:
  "js ''500K+'' \<noteq> [] \<and> js ''500K+'' \<noteq> js ''N/A'' \<and>
   spec_installs_match (toUpperCase (trim (filter (\<lambda>c. c \<noteq> 43 \<and> c \<noteq> 44) (js ''500K+''))))
     (js ''500'') (js ''K'') \<and>
   parseInstalls (js ''500K+'') = Num 500000 \<and>
   \<not> (\<exists>n x. spec_installs_match (toUpperCase (trim (filter (\<lambda>c. c \<noteq> 43 \<and> c \<noteq> 44) (js ''soon'')))) n x) \<and>
   parseInstalls (js ''soon'') = Num 0"
proof -
  have n: "toUpperCase (trim (filter (\<lambda>c. c \<noteq> 43 \<and> c \<noteq> 44) (js ''500K+''))) = js ''500K''"
    by (simp add: string_defs)
  have "js ''500K'' = js ''500'' @ [] @ js ''K''" by (simp add: js_def)
  then have m: "spec_installs_match (js ''500K'') (js ''500'') (js ''K'')"
    unfolding spec_installs_match_def
    by (intro exI [of _ "[]"]) (simp add: js_def isNumChar_def isDigit_def)
  have v: "mulNum (parseFloat (js ''500'')) (multipliers (js ''K'')) = Num 500000"
    by (simp add: parseFloat_def digitsValue_def mulNum_def multipliers_def string_defs
        dmul_def roundDouble_numeral)
  have k: "matchInstalls (toUpperCase (trim (filter (\<lambda>c. c \<noteq> 43 \<and> c \<noteq> 44) (js ''soon'')))) = None"
    by (simp add: matchInstalls_def isNumChar_def string_defs)
  then have nm: "\<not> (\<exists>n x. spec_installs_match (toUpperCase (trim (filter (\<lambda>c. c \<noteq> 43 \<and> c \<noteq> 44) (js ''soon'')))) n x)"
    by (simp add: matchInstalls_iff [symmetric])
  have ne: "js ''500K+'' \<noteq> [] \<and> js ''500K+'' \<noteq> js ''N/A''" by (simp add: js_def)
  from parseInstalls_pattern [of "js ''500K+''" "js ''500''" "js ''K''"] ne m n v
  have "parseInstalls (js ''500K+'') = Num 500000" by simp
  moreover from parseInstalls_pattern [of "js ''soon''"] nm
  have "parseInstalls (js ''soon'') = Num 0" by blast
  ultimately show ?thesis using ne m n nm by simp
qed

section \<open>The opportunity score\<close>




lemma f4_at_zero: "max 0 (min 1 (ddiv (dsub 0 (5 / 2)) 2)) = 0"
proof -
  have "dsub 0 (5 / 2) \<le> 0"
    unfolding dsub_def using roundDouble_mono [of "0 - 25 / 10" 0] by (simp add: roundDouble_zero)
  then have "dsub 0 (5 / 2) / 2 \<le> 0" by simp
  then have "ddiv (dsub 0 (5 / 2)) 2 \<le> 0"
    unfolding ddiv_def using roundDouble_mono [of "dsub 0 (5 / 2) / 2" 0]
    by (simp add: roundDouble_zero)
  then show ?thesis by simp
qed

lemma raw_at_half:
  "dmul 100
     (dadd (dadd (dadd (dadd (dmul (roundDouble (3 / 10)) 1) (dmul (1 / 4) (roundDouble (7 / 10))))
                       (dmul (1 / 4) 0))
                 (dmul (roundDouble (1 / 10)) 0))
           (dmul (roundDouble (1 / 10)) 1))
   = 8092405580431359 / 140737488355328"
proof -
  have p1: "dmul (roundDouble (3 / 10)) 1 = 5404319552844595 / 18014398509481984"
    unfolding dmul_def double_3_10
    by (rule roundDouble_evalI [where e = "- 2"]) (simp_all add: double_eval)
  have p2: "dmul (1 / 4) (roundDouble (7 / 10)) = 3152519739159347 / 18014398509481984"
    unfolding dmul_def double_7_10
    by (rule roundDouble_evalI [where e = "- 3"]) (simp_all add: double_eval)
  have s1: "dadd (5404319552844595 / 18014398509481984) (3152519739159347 / 18014398509481984)
            = 4278419646001971 / 9007199254740992"
    unfolding dadd_def
    by (rule roundDouble_evalI [where e = "- 2"]) (simp_all add: double_eval)
  have z: "dmul (1 / 4) 0 = 0" "dmul (roundDouble (1 / 10)) 0 = 0"
    by (simp_all add: dmul_def roundDouble_zero)
  have s2: "dadd (4278419646001971 / 9007199254740992) 0 = 4278419646001971 / 9007199254740992"
    unfolding dadd_def
    by (rule roundDouble_evalI [where e = "- 2"]) (simp_all add: double_eval)
  have p5: "dmul (roundDouble (1 / 10)) 1 = 3602879701896397 / 36028797018963968"
    unfolding dmul_def double_1_10
    by (rule roundDouble_evalI [where e = "- 4"]) (simp_all add: double_eval)
  have s4: "dadd (4278419646001971 / 9007199254740992) (3602879701896397 / 36028797018963968)
            = 2589569785738035 / 4503599627370496"
    unfolding dadd_def
    by (rule roundDouble_evalI [where e = "- 1"]) (simp_all add: double_eval)
  have r: "dmul 100 (2589569785738035 / 4503599627370496) = 8092405580431359 / 140737488355328"
    unfolding dmul_def
    by (rule roundDouble_evalI [where e = "5"]) (simp_all add: double_eval)
  show ?thesis by (simp only: p1 p2 s1 z s2 p5 s4 r)
qed

text \<open>
  With no competitors, no ratings, a store rating of 0 and installs \<open>N/A\<close> the weighted
  sum is 0.575 in exact arithmetic. The doubles give 0.57499999999999996 for the sum and
  57.49999999999999 for its hundredfold, which \<open>Math.round\<close> takes to 57.
\<close>

lemma score_below_half:
  "calculateOpportunityScore
     \<lparr>competitorsCount = 0, avgRating = None, maxRating = None, gpRating = 0,
      installs = InstallsStr (js ''N/A'')\<rparr> = 57"
proof -
  have f1: "max 0 (dsub 1 (ddiv 0 20)) = 1"
    by (simp add: dsub_def ddiv_def roundDouble_zero roundDouble_one)
  have m: "mathRound (8092405580431359 / 140737488355328) = 57"
    by (rule mathRound_eq) simp_all
  show ?thesis
    unfolding calculateOpportunityScore_def Let_def
    by (simp add: parseInstalls_def f1 f4_at_zero raw_at_half m)
qed





lemma rawScore_mono:
  "f1 \<le> g1 \<Longrightarrow> f2 \<le> g2 \<Longrightarrow> f3 \<le> g3 \<Longrightarrow> f4 \<le> g4 \<Longrightarrow> f5 \<le> g5 \<Longrightarrow>
   rawScore f1 f2 f3 f4 f5 \<le> rawScore g1 g2 g3 g4 g5"
proof -
  assume a: "f1 \<le> g1" "f2 \<le> g2" "f3 \<le> g3" "f4 \<le> g4" "f5 \<le> g5"
  have k3: "0 \<le> roundDouble (3 / 10)" and k1: "0 \<le> roundDouble (1 / 10)"
    by (rule roundDouble_nonneg, simp)+
  have "dmul 100
         (dadd (dadd (dadd (dadd (dmul (roundDouble (3 / 10)) f1) (dmul (1 / 4) f2))
                           (dmul (1 / 4) f3))
                     (dmul (roundDouble (1 / 10)) f4))
               (dmul (roundDouble (1 / 10)) f5))
        \<le> dmul 100
         (dadd (dadd (dadd (dadd (dmul (roundDouble (3 / 10)) g1) (dmul (1 / 4) g2))
                           (dmul (1 / 4) g3))
                     (dmul (roundDouble (1 / 10)) g4))
               (dmul (roundDouble (1 / 10)) g5))"
    using a k3 k1 by (intro dmul_mono dadd_mono) simp_all
  then have "mathRound (dmul 100
         (dadd (dadd (dadd (dadd (dmul (roundDouble (3 / 10)) f1) (dmul (1 / 4) f2))
                           (dmul (1 / 4) f3))
                     (dmul (roundDouble (1 / 10)) f4))
               (dmul (roundDouble (1 / 10)) f5)))
        \<le> mathRound (dmul 100
         (dadd (dadd (dadd (dadd (dmul (roundDouble (3 / 10)) g1) (dmul (1 / 4) g2))
                           (dmul (1 / 4) g3))
                     (dmul (roundDouble (1 / 10)) g4))
               (dmul (roundDouble (1 / 10)) g5)))"
    unfolding mathRound_def by (intro floor_mono) simp
  then show ?thesis unfolding rawScore_def by (simp add: max_def min_def)
qed

lemma f3num_mono: "i1 \<le> i2 \<Longrightarrow> f3num i1 \<le> f3num i2"
proof -
  assume le: "i1 \<le> i2"
  have nonneg: "0 \<le> f3num i" for i
  proof (cases "i > 0")
    case True
    then have "roundDouble 1 \<le> dadd i 1" unfolding dadd_def by (intro roundDouble_mono) simp
    then have "1 \<le> dadd i 1" by (simp add: roundDouble_one)
    then have "0 \<le> mathLog10 (dadd i 1)" by (rule mathLog10_nonneg)
    then have "0 \<le> ddiv (mathLog10 (dadd i 1)) 9"
      unfolding ddiv_def by (intro roundDouble_nonneg) simp
    with True show ?thesis by (simp add: f3num_def)
  next
    case False
    then show ?thesis by (simp add: f3num_def)
  qed
  show ?thesis
  proof (cases "i1 > 0")
    case True
    with le have p2: "i2 > 0" by simp
    from True have "roundDouble 1 \<le> dadd i1 1" unfolding dadd_def by (intro roundDouble_mono) simp
    then have pos: "0 < dadd i1 1" by (simp add: roundDouble_one)
    have "dadd i1 1 \<le> dadd i2 1" using le by (intro dadd_mono) simp_all
    with pos have "mathLog10 (dadd i1 1) \<le> mathLog10 (dadd i2 1)" by (rule mathLog10_mono)
    then have "ddiv (mathLog10 (dadd i1 1)) 9 \<le> ddiv (mathLog10 (dadd i2 1)) 9"
      by (intro ddiv_mono) simp_all
    then have "min 1 (ddiv (mathLog10 (dadd i1 1)) 9) \<le> min 1 (ddiv (mathLog10 (dadd i2 1)) 9)"
      by (simp add: min_def)
    with True p2 show ?thesis by (simp add: f3num_def)
  next
    case False
    with nonneg [of i2] show ?thesis by (simp add: f3num_def)
  qed
qed

lemma score_as_raw:
  "calculateOpportunityScore inp =
     rawScore (max 0 (dsub 1 (ddiv (competitorsCount inp) 20)))
       (case avgRating inp of
          None \<Rightarrow> roundDouble (7 / 10)
        | Some a \<Rightarrow> max 0 (dsub 1 (ddiv (dsub a 2) 3)))
       (case (case installs inp of InstallsStr s \<Rightarrow> parseInstalls s | InstallsNum n \<Rightarrow> Num n) of
          Num n \<Rightarrow> f3num n | NaN \<Rightarrow> 0)
       (max 0 (min 1 (ddiv (dsub (gpRating inp) (5 / 2)) 2)))
       (case maxRating inp of None \<Rightarrow> 1 | Some m \<Rightarrow> max 0 (dsub 1 (ddiv (dsub m 2) 3)))"
  unfolding calculateOpportunityScore_def rawScore_def Let_def f3num_def by (rule refl)

text \<open>
  C7. With every other input fixed, the score does not grow with the competitor count,
  and does not fall with the store rating or with a numeric installs value.
\<close>

theorem score_monotonic:
  "(c1 \<le> c2 \<longrightarrow>
      calculateOpportunityScore (inp\<lparr>competitorsCount := c2\<rparr>)
        \<le> calculateOpportunityScore (inp\<lparr>competitorsCount := c1\<rparr>)) \<and>
   (g1 \<le> g2 \<longrightarrow>
      calculateOpportunityScore (inp\<lparr>gpRating := g1\<rparr>)
        \<le> calculateOpportunityScore (inp\<lparr>gpRating := g2\<rparr>)) \<and>
   (i1 \<le> i2 \<longrightarrow>
      calculateOpportunityScore (inp\<lparr>installs := InstallsNum i1\<rparr>)
        \<le> calculateOpportunityScore (inp\<lparr>installs := InstallsNum i2\<rparr>))"
proof (intro conjI impI)
  assume "c1 \<le> c2"
  then have "dsub 1 (ddiv c2 20) \<le> dsub 1 (ddiv c1 20)"
    by (intro dsub_mono ddiv_mono) simp_all
  then have "max 0 (dsub 1 (ddiv c2 20)) \<le> max 0 (dsub 1 (ddiv c1 20))" by (simp add: max_def)
  then show "calculateOpportunityScore (inp\<lparr>competitorsCount := c2\<rparr>)
        \<le> calculateOpportunityScore (inp\<lparr>competitorsCount := c1\<rparr>)"
    unfolding score_as_raw by (intro rawScore_mono) simp_all
next
  assume "g1 \<le> g2"
  then have "ddiv (dsub g1 (5 / 2)) 2 \<le> ddiv (dsub g2 (5 / 2)) 2"
    by (intro dsub_mono ddiv_mono) simp_all
  then have "max 0 (min 1 (ddiv (dsub g1 (5 / 2)) 2)) \<le> max 0 (min 1 (ddiv (dsub g2 (5 / 2)) 2))"
    by (simp add: max_def min_def)
  then show "calculateOpportunityScore (inp\<lparr>gpRating := g1\<rparr>)
        \<le> calculateOpportunityScore (inp\<lparr>gpRating := g2\<rparr>)"
    unfolding score_as_raw by (intro rawScore_mono) simp_all
next
  assume "i1 \<le> i2"
  then have "f3num i1 \<le> f3num i2" by (rule f3num_mono)
  then show "calculateOpportunityScore (inp\<lparr>installs := InstallsNum i1\<rparr>)
        \<le> calculateOpportunityScore (inp\<lparr>installs := InstallsNum i2\<rparr>)"
    unfolding score_as_raw by (intro rawScore_mono) simp_all
qed

theorem score_monotonic_witness:
  "(3::real) \<le> 12 \<and>
   calculateOpportunityScore
     (\<lparr>competitorsCount = 0, avgRating = Some 4, maxRating = Some 5, gpRating = 4,
       installs = InstallsNum 1000\<rparr>\<lparr>competitorsCount := 12\<rparr>)
   \<le> calculateOpportunityScore
     (\<lparr>competitorsCount = 0, avgRating = Some 4, maxRating = Some 5, gpRating = 4,
       installs = InstallsNum 1000\<rparr>\<lparr>competitorsCount := 3\<rparr>) \<and>
   (3::real) \<le> 45 / 10 \<and>
   calculateOpportunityScore
     (\<lparr>competitorsCount = 0, avgRating = Some 4, maxRating = Some 5, gpRating = 4,
       installs = InstallsNum 1000\<rparr>\<lparr>gpRating := 3\<rparr>)
   \<le> calculateOpportunityScore
     (\<lparr>competitorsCount = 0, avgRating = Some 4, maxRating = Some 5, gpRating = 4,
       installs = InstallsNum 1000\<rparr>\<lparr>gpRating := 45 / 10\<rparr>) \<and>
   (10::real) \<le> 1000000 \<and>
   calculateOpportunityScore
     (\<lparr>competitorsCount = 0, avgRating = Some 4, maxRating = Some 5, gpRating = 4,
       installs = InstallsNum 1000\<rparr>\<lparr>installs := InstallsNum 10\<rparr>)
   \<le> calculateOpportunityScore
     (\<lparr>competitorsCount = 0, avgRating = Some 4, maxRating = Some 5, gpRating = 4,
       installs = InstallsNum 1000\<rparr>\<lparr>installs := InstallsNum 1000000\<rparr>)"
  using score_monotonic [of 3 12
      "\<lparr>competitorsCount = 0, avgRating = Some 4, maxRating = Some 5, gpRating = 4,
        installs = InstallsNum 1000\<rparr>" 3 "45 / 10" 10 1000000]
  by simp

section \<open>The relevance score\<close>

lemma set_wordSet: "set (wordSet s) = spec_tokens s"
  by (auto simp: wordSet_def spec_tokens_def)

lemma distinct_wordSet: "distinct (wordSet s)"
  by (simp add: wordSet_def)

lemma count_members:
  "foldl (\<lambda>n w. if w \<in> B then n + 1 else n) (k::nat) xs = k + length (filter (\<lambda>w. w \<in> B) xs)"
  by (induction xs arbitrary: k) simp_all

lemma card_inter_distinct: "distinct xs \<Longrightarrow> card (set xs \<inter> B) = length (filter (\<lambda>w. w \<in> B) xs)"
proof -
  assume d: "distinct xs"
  have s: "set xs \<inter> B = set (filter (\<lambda>w. w \<in> B) xs)" by auto
  have "distinct (filter (\<lambda>w. w \<in> B) xs)" using d by simp
  then have "card (set (filter (\<lambda>w. w \<in> B) xs)) = length (filter (\<lambda>w. w \<in> B) xs)"
    by (rule distinct_card)
  then show ?thesis by (simp only: s)
qed

lemma wordJaccard_spec: "wordJaccard a b = spec_jaccard a b"
proof -
  have e: "(length (wordSet a) = 0 \<or> length (wordSet b) = 0) = (spec_tokens a = {} \<or> spec_tokens b = {})"
    using set_wordSet [of a] set_wordSet [of b] by (metis length_0_conv set_empty)
  have i: "foldl (\<lambda>n w. if w \<in> set (wordSet b) then n + 1 else n) (0::nat) (wordSet a)
           = card (spec_tokens a \<inter> spec_tokens b)"
    using card_inter_distinct [OF distinct_wordSet, of a "set (wordSet b)"]
    by (simp add: count_members set_wordSet)
  have u: "length (remdups (wordSet a @ wordSet b)) = card (spec_tokens a \<union> spec_tokens b)"
    by (simp add: length_remdups_card_conv set_wordSet)
  show ?thesis
    unfolding wordJaccard_def spec_jaccard_def Let_def e i u by (rule refl)
qed

lemma startsWith_iff: "startsWith s b \<longleftrightarrow> (\<exists>ys. s = b @ ys)"
  by (induction s b rule: startsWith.induct) auto

lemma includesStr_spec: "includesStr a b \<longleftrightarrow> spec_contains a b"
proof (induction a)
  case Nil
  show ?case by (simp add: spec_contains_def)
next
  case (Cons c cs)
  have "spec_contains (c # cs) b \<longleftrightarrow> (\<exists>ys. c # cs = b @ ys) \<or> spec_contains cs b"
  proof
    assume "spec_contains (c # cs) b"
    then obtain xs ys where x: "c # cs = xs @ b @ ys" unfolding spec_contains_def by blast
    show "(\<exists>ys. c # cs = b @ ys) \<or> spec_contains cs b"
    proof (cases xs)
      case Nil
      with x show ?thesis by auto
    next
      case (Cons x' xs')
      with x have "cs = xs' @ b @ ys" by simp
      then show ?thesis unfolding spec_contains_def by blast
    qed
  next
    assume "(\<exists>ys. c # cs = b @ ys) \<or> spec_contains cs b"
    then show "spec_contains (c # cs) b"
    proof
      assume "\<exists>ys. c # cs = b @ ys"
      then obtain ys where "c # cs = [] @ b @ ys" by auto
      then show ?thesis unfolding spec_contains_def by blast
    next
      assume "spec_contains cs b"
      then obtain xs ys where "cs = xs @ b @ ys" unfolding spec_contains_def by blast
      then have "c # cs = (c # xs) @ b @ ys" by simp
      then show ?thesis unfolding spec_contains_def by blast
    qed
  qed
  with Cons show ?case by (simp add: startsWith_iff)
qed

lemma substringMatch_spec: "substringMatch a b \<longleftrightarrow> spec_substring a b"
  by (auto simp: substringMatch_def spec_substring_def Let_def includesStr_spec)

lemma spec_jaccard_range: "0 \<le> spec_jaccard a b \<and> spec_jaccard a b \<le> 1"
proof -
  have f: "finite (spec_tokens a \<union> spec_tokens b)" by (simp add: spec_tokens_def)
  then have "card (spec_tokens a \<inter> spec_tokens b) \<le> card (spec_tokens a \<union> spec_tokens b)"
    by (intro card_mono) auto
  then have "real (card (spec_tokens a \<inter> spec_tokens b)) / real (card (spec_tokens a \<union> spec_tokens b)) \<le> 1"
    by (cases "card (spec_tokens a \<union> spec_tokens b) = 0") (simp_all add: divide_le_eq_1)
  then show ?thesis by (simp add: spec_jaccard_def)
qed

lemma calculateRelevance_spec: "calculateRelevance c q t = spec_relevance c q t"
  by (simp add: calculateRelevance_def spec_relevance_def Let_def wordJaccard_spec
      substringMatch_spec mult.commute)

lemma spec_relevance_range: "0 \<le> spec_relevance c q t \<and> spec_relevance c q t \<le> 1"
proof -
  have "0 \<le> max (spec_jaccard (name c) q) (spec_jaccard (name c) t)"
    using spec_jaccard_range [of "name c" q] by (simp add: max_def)
  then show ?thesis by (simp add: spec_relevance_def)
qed

text \<open>
  C2. \<open>calculateRelevance\<close> is the formula of the specification: 0.6 times the better of
  the two word-level Jaccard indices, plus 0.3 when the trimmed, lower-cased name
  contains or is contained in the trimmed, lower-cased query or cleaned title (both
  compared strings of at least two code units), plus 0.1 when the rating is not null,
  capped at 1. The result lies in [0, 1], and the loop body of \<open>checkRuStore\<close> marks the
  competitor relevant iff the score is at least 0.15.
\<close>

theorem calculateRelevance_formula:
  "calculateRelevance c q t = spec_relevance c q t \<and>
   0 \<le> calculateRelevance c q t \<and> calculateRelevance c q t \<le> 1 \<and>
   relevance (scoreCompetitor c q t) = Some (spec_relevance c q t) \<and>
   relevant (scoreCompetitor c q t) = Some (15 / 100 \<le> spec_relevance c q t)"
  using spec_relevance_range [of c q t]
  by (simp add: calculateRelevance_spec scoreCompetitor_def Let_def RELEVANCE_THRESHOLD_def)

section \<open>The scoring loop and the competitor records\<close>

lemma calculateRelevance_fields:
  "name c' = name c \<Longrightarrow> rating c' = rating c \<Longrightarrow> calculateRelevance c' q t = calculateRelevance c q t"
  by (simp add: calculateRelevance_def)

lemma scoreCompetitor_eq:
  "scoreCompetitor c q t =
     c\<lparr>relevance := Some (calculateRelevance c q t),
       relevant := Some (RELEVANCE_THRESHOLD \<le> calculateRelevance c q t)\<rparr>"
  by (simp add: scoreCompetitor_def Let_def)

lemma scoreCompetitor_idem:
  "scoreCompetitor (scoreCompetitor c q t) q t = scoreCompetitor c q t"
proof -
  have "calculateRelevance (scoreCompetitor c q t) q t = calculateRelevance c q t"
    by (rule calculateRelevance_fields) (simp_all add: scoreCompetitor_eq)
  then show ?thesis by (simp add: scoreCompetitor_eq)
qed

lemma scoreLoop_other: "a \<notin> set as \<Longrightarrow> scoreLoop h as q t a = h a"
proof (induction as arbitrary: h)
  case Nil
  show ?case by simp
next
  case (Cons b bs)
  then have ne: "a \<noteq> b" and nin: "a \<notin> set bs" by auto
  show ?case
  proof (cases "h b")
    case None
    with Cons.IH [of h, OF nin] show ?thesis by simp
  next
    case (Some d)
    have step: "scoreLoop h (b # bs) q t a = scoreLoop (h(b \<mapsto> scoreCompetitor d q t)) bs q t a"
      using Some by simp
    have "scoreLoop (h(b \<mapsto> scoreCompetitor d q t)) bs q t a = (h(b \<mapsto> scoreCompetitor d q t)) a"
      using nin by (rule Cons.IH)
    also have "\<dots> = h a" using ne by simp
    finally show ?thesis by (simp only: step)
  qed
qed

lemma scoreLoop_scored:
  "h a = Some (scoreCompetitor c q t) \<Longrightarrow> scoreLoop h as q t a = Some (scoreCompetitor c q t)"
proof (induction as arbitrary: h)
  case Nil
  then show ?case by simp
next
  case (Cons b bs)
  show ?case
  proof (cases "h b")
    case None
    with Cons.IH [of h] Cons.prems show ?thesis by simp
  next
    case (Some d)
    have step: "scoreLoop h (b # bs) q t a = scoreLoop (h(b \<mapsto> scoreCompetitor d q t)) bs q t a"
      using Some by simp
    have "(h(b \<mapsto> scoreCompetitor d q t)) a = Some (scoreCompetitor c q t)"
      using Some Cons.prems by (cases "a = b") (simp_all add: scoreCompetitor_idem)
    then have "scoreLoop (h(b \<mapsto> scoreCompetitor d q t)) bs q t a = Some (scoreCompetitor c q t)"
      by (rule Cons.IH)
    then show ?thesis by (simp only: step)
  qed
qed

lemma scoreLoop_member:
  "h a = Some c \<Longrightarrow> a \<in> set as \<Longrightarrow> scoreLoop h as q t a = Some (scoreCompetitor c q t)"
proof (induction as arbitrary: h)
  case Nil
  then show ?case by simp
next
  case (Cons b bs)
  show ?case
  proof (cases "a = b")
    case True
    have step: "scoreLoop h (b # bs) q t a = scoreLoop (h(b \<mapsto> scoreCompetitor c q t)) bs q t a"
      using True Cons.prems by simp
    have "(h(b \<mapsto> scoreCompetitor c q t)) a = Some (scoreCompetitor c q t)" using True by simp
    then have "scoreLoop (h(b \<mapsto> scoreCompetitor c q t)) bs q t a = Some (scoreCompetitor c q t)"
      by (rule scoreLoop_scored)
    then show ?thesis by (simp only: step)
  next
    case False
    with Cons.prems have mem: "a \<in> set bs" by simp
    show ?thesis
    proof (cases "h b")
      case None
      with Cons.IH [of h, OF Cons.prems(1) mem] show ?thesis by simp
    next
      case (Some d)
      have step: "scoreLoop h (b # bs) q t a = scoreLoop (h(b \<mapsto> scoreCompetitor d q t)) bs q t a"
        using Some by simp
      have "(h(b \<mapsto> scoreCompetitor d q t)) a = Some c" using False Cons.prems by simp
      then have "scoreLoop (h(b \<mapsto> scoreCompetitor d q t)) bs q t a = Some (scoreCompetitor c q t)"
        using mem by (rule Cons.IH)
      then show ?thesis by (simp only: step)
    qed
  qed
qed

lemma scoreLoop_None: "h a = None \<Longrightarrow> scoreLoop h as q t a = None"
proof (induction as arbitrary: h)
  case Nil
  then show ?case by simp
next
  case (Cons b bs)
  show ?case
  proof (cases "h b")
    case None
    with Cons.IH [of h] Cons.prems show ?thesis by simp
  next
    case (Some d)
    have step: "scoreLoop h (b # bs) q t a = scoreLoop (h(b \<mapsto> scoreCompetitor d q t)) bs q t a"
      using Some by simp
    from Some Cons.prems have "(h(b \<mapsto> scoreCompetitor d q t)) a = None" by auto
    then have "scoreLoop (h(b \<mapsto> scoreCompetitor d q t)) bs q t a = None"
      by (rule Cons.IH)
    then show ?thesis by (simp only: step)
  qed
qed

text \<open>
  C10, as the code has it. After the loop over the array \<open>as\<close> of competitor addresses,
  the store holds an object exactly where it held one before. An object outside the
  array is untouched. An object in the array keeps its \<open>name\<close>, \<open>category\<close>, \<open>rating\<close> and
  \<open>url\<close>, and the same object now carries \<open>relevance\<close> and \<open>relevant\<close>: the flags are
  written into the input records, no new record is made.
\<close>

theorem scoreLoop_frame:
  "scoreLoop h as q t a =
     (case h a of
        None \<Rightarrow> None
      | Some c \<Rightarrow>
          Some (if a \<in> set as
                then c\<lparr>relevance := Some (calculateRelevance c q t),
                       relevant := Some (RELEVANCE_THRESHOLD \<le> calculateRelevance c q t)\<rparr>
                else c))"
proof (cases "h a")
  case None
  then show ?thesis by (simp add: scoreLoop_None)
next
  case (Some c)
  then show ?thesis
    by (cases "a \<in> set as") (simp_all add: scoreLoop_member scoreLoop_other scoreCompetitor_eq)
qed

theorem scoreLoop_frame_counterexample:
  "map_option relevance
     (scoreLoop (allocate [\<lparr>name = js ''WhatsApp'', category = [], rating = Some 4, url = [],
                            relevance = None, relevant = None\<rparr>]) [0] (js ''whatsapp'') (js ''whatsapp'') 0)
   \<noteq> map_option relevance
     (allocate [\<lparr>name = js ''WhatsApp'', category = [], rating = Some 4, url = [],
                            relevance = None, relevant = None\<rparr>] 0)"
  by (simp add: allocate_def scoreCompetitor_def Let_def)

section \<open>A check without candidates\<close>

text \<open>
  C9. Let the query be built (\<open>cleanSearchQuery\<close> and \<open>encodeURIComponent\<close> return) and
  let the browser give no candidates for the search URL: no card before the time-out, a
  navigation that failed after its retries, or an empty list of cards. Then
  \<open>checkRuStore\<close> returns a report with the query and the URL, no competitors, no
  ratings, and the score that \<open>calculateOpportunityScore\<close> gives for these statistics.
\<close>

theorem checkRuStore_no_candidates:
  assumes "cleanSearchQuery title cat = Inr cleaned"
    and "query = (if type (classifyTitle title) = descriptive then translateToRussian cleaned else cleaned)"
    and "encodeURIComponent query = Inr enc"
    and "fetch (RUSTORE_SEARCH_URL @ enc) = NoCards \<or>
         fetch (RUSTORE_SEARCH_URL @ enc) = NavigationFailed \<or>
         fetch (RUSTORE_SEARCH_URL @ enc) = Cards []"
  shows "checkRuStore translateToRussian fetch title cat gp inst =
     Inr \<lparr>competitorsCount = 0, avgRating = None, maxRating = None,
          searchQuery = query, searchUrl = RUSTORE_SEARCH_URL @ enc, topCompetitors = [],
          opportunityScore =
            calculateOpportunityScore
              \<lparr>competitorsCount = 0, avgRating = None, maxRating = None,
               gpRating = gpRatingOrZero gp, installs = installsOrNA inst\<rparr>\<rparr>"
  using assms(4)
proof (elim disjE)
  assume "fetch (RUSTORE_SEARCH_URL @ enc) = NoCards"
  with assms(1,2,3) show ?thesis
    by (simp add: checkRuStore_def Let_def)
next
  assume "fetch (RUSTORE_SEARCH_URL @ enc) = NavigationFailed"
  with assms(1,2,3) show ?thesis
    by (simp add: checkRuStore_def Let_def deref_def)
next
  assume "fetch (RUSTORE_SEARCH_URL @ enc) = Cards []"
  with assms(1,2,3) show ?thesis
    by (simp add: checkRuStore_def Let_def deref_def)
qed

theorem checkRuStore_no_candidates_witness:
  "cleanSearchQuery (js ''WhatsApp Messenger'') (js ''Communication'') = Inr (js ''WhatsApp Messenger'') \<and>
   encodeURIComponent (js ''WhatsApp Messenger'') = Inr (js ''WhatsApp%20Messenger'') \<and>
   checkRuStore (\<lambda>s. s) (\<lambda>u. NoCards) (js ''WhatsApp Messenger'') (js ''Communication'')
       (Some (45 / 10)) (Some (InstallsStr (js ''10M+''))) =
     Inr \<lparr>competitorsCount = 0, avgRating = None, maxRating = None,
          searchQuery = js ''WhatsApp Messenger'',
          searchUrl = js ''https://www.rustore.ru/catalog/search?query=WhatsApp%20Messenger'',
          topCompetitors = [],
          opportunityScore =
            calculateOpportunityScore
              \<lparr>competitorsCount = 0, avgRating = None, maxRating = None,
               gpRating = 45 / 10, installs = InstallsStr (js ''10M+'')\<rparr>\<rparr>"
proof -
  have c: "cleanSearchQuery (js ''WhatsApp Messenger'') (js ''Communication'') =
           Inr (js ''WhatsApp Messenger'')"
    by (simp add: string_defs cleanSearchQuery_def)
  have t: "type (classifyTitle (js ''WhatsApp Messenger'')) = mixed"
    by (simp add: string_defs classifyTitle_def classifyWord_def isBrandToken_def
        UNIVERSAL_FILLER_def)
  have e: "encodeURIComponent (js ''WhatsApp Messenger'') = Inr (js ''WhatsApp%20Messenger'')"
    by (simp add: js_def uriUnescaped_def isUpperAZ_def isLowerAZ_def isDigit_def prepend_def
        isLeadSurrogate_def isTrailSurrogate_def escapeCodePoint_def utf8_def percentByte_def
        hexDigit_def)
  have u: "RUSTORE_SEARCH_URL @ js ''WhatsApp%20Messenger'' =
           js ''https://www.rustore.ru/catalog/search?query=WhatsApp%20Messenger''"
    by (simp add: RUSTORE_SEARCH_URL_def js_def)
  have g: "gpRatingOrZero (Some (45 / 10)) = 45 / 10"
    "installsOrNA (Some (InstallsStr (js ''10M+''))) = InstallsStr (js ''10M+'')"
    by (simp_all add: gpRatingOrZero_def installsOrNA_def js_def)
  from checkRuStore_no_candidates
    [where title = "js ''WhatsApp Messenger''" and cat = "js ''Communication''"
       and cleaned = "js ''WhatsApp Messenger''" and query = "js ''WhatsApp Messenger''"
       and enc = "js ''WhatsApp%20Messenger''" and translateToRussian = "\<lambda>s. s"
       and fetch = "\<lambda>u. NoCards" and gp = "Some (45 / 10)"
       and inst = "Some (InstallsStr (js ''10M+''))"]
    c t e
  show ?thesis by (simp add: u g gpRatingOrZero_def)
qed

end
